theory Spec2Isabelle
  imports Main "HOL-Library.Word"
begin

unbundle bit_operations_syntax

section \<open>Values and the constants of types.h\<close>

text \<open>
  \<open>Value\<close> and \<open>Depth\<close> are C++ \<open>int\<close>s, 32 bits wide. The steps of the search below
  compute with values the engine keeps within \<open>\<plusminus>VALUE_NONE\<close>, far inside that range, and
  are modelled on \<open>int\<close>. \<open>value_to_tt\<close> and \<open>value_from_tt\<close> are stated for every argument
  of their type, so their arithmetic is 32-bit arithmetic written out: \<open>add32\<close> and
  \<open>sub32\<close> wrap around as the compiled code does when a sum leaves the range of \<open>int\<close>.
  C++ division truncates towards zero; \<open>cdiv\<close> is that division.
\<close>

type_synonym Value = int
type_synonym Depth = int

definition cdiv :: "int \<Rightarrow> int \<Rightarrow> int" where
  "cdiv a b = sgn a * sgn b * (\<bar>a\<bar> div \<bar>b\<bar>)"

text \<open>The values of a 32-bit \<open>int\<close>, and the two's-complement wrap-around into them.\<close>

definition is_int32 :: "int \<Rightarrow> bool" where
  "is_int32 x \<longleftrightarrow> - 2147483648 \<le> x \<and> x \<le> 2147483647"

definition wrap32 :: "int \<Rightarrow> int" where
  "wrap32 x = (x + 2147483648) mod 4294967296 - 2147483648"

definition add32 :: "int \<Rightarrow> int \<Rightarrow> int" where
  "add32 a b = wrap32 (a + b)"

definition sub32 :: "int \<Rightarrow> int \<Rightarrow> int" where
  "sub32 a b = wrap32 (a - b)"

text \<open>
  The value constants are declared in types.h, which is not among the sources. The
  functions below take them as a parameter, a record with one field for each constant
  the sources name.
\<close>

record value_consts =
  MAX_PLY :: int
  VALUE_DRAW :: Value
  VALUE_KNOWN_WIN :: Value
  VALUE_MATE :: Value
  VALUE_INFINITE :: Value
  VALUE_NONE :: Value
  VALUE_MATE_IN_MAX_PLY :: Value
  VALUE_MATED_IN_MAX_PLY :: Value
  VALUE_TB :: Value
  VALUE_TB_WIN_IN_MAX_PLY :: Value
  VALUE_TB_LOSS_IN_MAX_PLY :: Value

text \<open>
  Modelled from the spec: the concrete constants of types.h are missing; the spec gives
  \<open>MaxPly = 246\<close> and 16-bit stored values, the other numbers are those of the Stockfish
  release the sources derive from. They are used at concrete inputs only.
\<close>

definition sf_consts :: value_consts where
  "sf_consts = \<lparr> MAX_PLY = 246, VALUE_DRAW = 0, VALUE_KNOWN_WIN = 10000,
     VALUE_MATE = 32000,
     VALUE_INFINITE = 32001, VALUE_NONE = 32002,
     VALUE_MATE_IN_MAX_PLY = 31754, VALUE_MATED_IN_MAX_PLY = - 31754,
     VALUE_TB = 31753,
     VALUE_TB_WIN_IN_MAX_PLY = 31507, VALUE_TB_LOSS_IN_MAX_PLY = - 31507 \<rparr>"

section \<open>Mate scores in the transposition table (search.cpp and the classic search)\<close>

text \<open>
  \<open>value_to_tt\<close> is the same function in search.cpp and in the classic search. Its
  arguments \<open>v\<close> and \<open>ply\<close> are \<open>int\<close>s; it asserts \<open>v != VALUE_NONE\<close>.
\<close>

definition value_to_tt :: "value_consts \<Rightarrow> Value \<Rightarrow> int \<Rightarrow> Value" where
  "value_to_tt vc v ply =
     (if v \<ge> VALUE_TB_WIN_IN_MAX_PLY vc then add32 v ply
      else if v \<le> VALUE_TB_LOSS_IN_MAX_PLY vc then sub32 v ply
      else v)"

text \<open>\<open>value_from_tt\<close> of search.cpp.\<close>

definition value_from_tt :: "value_consts \<Rightarrow> Value \<Rightarrow> int \<Rightarrow> int \<Rightarrow> Value" where
  "value_from_tt vc v ply r50c =
     (if v = VALUE_NONE vc then VALUE_NONE vc
      else if v \<ge> VALUE_TB_WIN_IN_MAX_PLY vc then
        (if v \<ge> VALUE_MATE_IN_MAX_PLY vc \<and> sub32 (VALUE_MATE vc) v > sub32 100 r50c
           then sub32 (VALUE_TB_WIN_IN_MAX_PLY vc) 1
         else if sub32 (VALUE_TB vc) v > sub32 100 r50c
           then sub32 (VALUE_TB_WIN_IN_MAX_PLY vc) 1
         else sub32 v ply)
      else if v \<le> VALUE_TB_LOSS_IN_MAX_PLY vc then
        (if v \<le> VALUE_MATED_IN_MAX_PLY vc \<and> add32 (VALUE_MATE vc) v > sub32 100 r50c
           then add32 (VALUE_TB_LOSS_IN_MAX_PLY vc) 1
         else if add32 (VALUE_TB vc) v > sub32 100 r50c
           then add32 (VALUE_TB_LOSS_IN_MAX_PLY vc) 1
         else add32 v ply)
      else v)"

text \<open>
  The conditions under which \<open>value_from_tt\<close> of search.cpp leaves through one of its
  four downgrade returns, for a stored value \<open>v\<close>.
\<close>

definition downgrades :: "value_consts \<Rightarrow> Value \<Rightarrow> int \<Rightarrow> bool" where
  "downgrades vc v r50c =
     (v \<noteq> VALUE_NONE vc \<and>
      (if v \<ge> VALUE_TB_WIN_IN_MAX_PLY vc then
         (v \<ge> VALUE_MATE_IN_MAX_PLY vc \<and> sub32 (VALUE_MATE vc) v > sub32 100 r50c)
         \<or> sub32 (VALUE_TB vc) v > sub32 100 r50c
       else v \<le> VALUE_TB_LOSS_IN_MAX_PLY vc \<and>
         ((v \<le> VALUE_MATED_IN_MAX_PLY vc \<and> add32 (VALUE_MATE vc) v > sub32 100 r50c)
          \<or> add32 (VALUE_TB vc) v > sub32 100 r50c)))"

text \<open>
  \<open>value_from_tt<SearchMate>\<close> of the classic search: the template parameter is the
  first argument.
\<close>

definition classic_value_from_tt ::
  "bool \<Rightarrow> value_consts \<Rightarrow> Value \<Rightarrow> int \<Rightarrow> int \<Rightarrow> Value" where
  "classic_value_from_tt SearchMate vc v ply r50c =
     (if v = VALUE_NONE vc then VALUE_NONE vc
      else if \<not> SearchMate then
        (if v \<ge> VALUE_TB_WIN_IN_MAX_PLY vc then
           (if v \<ge> VALUE_MATE_IN_MAX_PLY vc \<and> sub32 (VALUE_MATE vc) v > sub32 99 r50c
              then sub32 (VALUE_MATE_IN_MAX_PLY vc) 1
            else sub32 v ply)
         else if v \<le> VALUE_TB_LOSS_IN_MAX_PLY vc then
           (if v \<le> VALUE_MATED_IN_MAX_PLY vc \<and> add32 (VALUE_MATE vc) v > sub32 99 r50c
              then add32 (VALUE_MATED_IN_MAX_PLY vc) 1
            else add32 v ply)
         else v)
      else
        (if v \<ge> VALUE_TB_WIN_IN_MAX_PLY vc then sub32 v ply
         else if v \<le> VALUE_TB_LOSS_IN_MAX_PLY vc then add32 v ply
         else v))"

definition classic_downgrades :: "bool \<Rightarrow> value_consts \<Rightarrow> Value \<Rightarrow> int \<Rightarrow> bool" where
  "classic_downgrades SearchMate vc v r50c =
     (v \<noteq> VALUE_NONE vc \<and> \<not> SearchMate \<and>
      (if v \<ge> VALUE_TB_WIN_IN_MAX_PLY vc then
         v \<ge> VALUE_MATE_IN_MAX_PLY vc \<and> sub32 (VALUE_MATE vc) v > sub32 99 r50c
       else v \<le> VALUE_TB_LOSS_IN_MAX_PLY vc \<and>
         v \<le> VALUE_MATED_IN_MAX_PLY vc \<and> add32 (VALUE_MATE vc) v > sub32 99 r50c))"
section \<open>The start of a search node (search.cpp and the classic search)\<close>

datatype NodeType = NonPV | PV | Root

text \<open>
  What the first steps of \<open>search\<close> read from the position, the stack frame and the
  thread: \<open>pos.rule50_count()\<close>, \<open>pos.has_game_cycle(ss->ply)\<close>, the thread's node
  counter (a 64-bit unsigned integer), the stop flag as Step 2 loads it,
  \<open>pos.is_draw(ss->ply)\<close>, \<open>ss->ply\<close>, \<open>ss->inCheck\<close> (whether \<open>pos.checkers()\<close> is
  non-empty) and the value \<open>evaluate(pos)\<close> returns.
\<close>

record node_facts =
  pos_rule50_count :: int
  pos_has_game_cycle :: bool
  thread_nodes :: "64 word"
  threads_stop :: bool
  pos_is_draw :: bool
  ss_ply :: int
  ss_inCheck :: bool
  pos_evaluate :: Value

text \<open>\<open>value_draw\<close>, the same in search.cpp and in the classic search.\<close>

definition value_draw :: "value_consts \<Rightarrow> 64 word \<Rightarrow> Value" where
  "value_draw vc n = VALUE_DRAW vc - 1 + uint (n AND 2)"

text \<open>
  The game-cycle step at the top of \<open>search\<close>. It either returns a value at once or goes
  on with a (possibly lifted) alpha and, in the Shashin variant, the flag \<open>gameCycle\<close>
  (the other variants do not use the flag; \<open>False\<close> stands for it there).
\<close>

datatype cycle_result = CycleReturn Value | CycleContinue Value bool

text \<open>search.cpp, \<open>search<nodeType, Shashin>\<close>.\<close>

definition search_cycle_step ::
  "value_consts \<Rightarrow> NodeType \<Rightarrow> bool \<Rightarrow> node_facts \<Rightarrow> Value \<Rightarrow> Value \<Rightarrow> cycle_result" where
  "search_cycle_step vc nodeType Shashin nf alpha beta =
     (if \<not> Shashin then
        (if nodeType \<noteq> Root \<and> alpha < VALUE_DRAW vc \<and> pos_has_game_cycle nf then
           (let alpha' = value_draw vc (thread_nodes nf) in
            if alpha' \<ge> beta then CycleReturn alpha' else CycleContinue alpha' False)
         else CycleContinue alpha False)
      else
        (if nodeType \<noteq> Root then
           (if pos_has_game_cycle nf then
              (if pos_rule50_count nf \<ge> 3 \<and> alpha < VALUE_DRAW vc then
                 (let alpha' = value_draw vc (thread_nodes nf) in
                  if alpha' \<ge> beta then CycleReturn alpha' else CycleContinue alpha' True)
               else CycleContinue alpha True)
            else CycleContinue alpha False)
         else CycleContinue alpha False))"






fun returned :: "cycle_result \<Rightarrow> Value option" where
  "returned (CycleReturn a) = Some a"
| "returned (CycleContinue a g) = None"

text \<open>
  search.cpp, \<open>search\<close> from its first line to the end of Step 2: the dive into
  \<open>qsearch\<close>, the game-cycle step, and the check for an aborted search or an immediate
  draw. \<open>Proceed alpha beta gameCycle\<close> goes on to Step 3.
\<close>

datatype entry_result = Return Value | ToQsearch Value Value | Proceed Value Value bool

definition search_entry ::
  "value_consts \<Rightarrow> NodeType \<Rightarrow> bool \<Rightarrow> node_facts \<Rightarrow> Value \<Rightarrow> Value \<Rightarrow> Depth
     \<Rightarrow> entry_result" where
  "search_entry vc nodeType Shashin nf alpha beta depth =
     (if depth \<le> 0 then ToQsearch alpha beta
      else case search_cycle_step vc nodeType Shashin nf alpha beta of
        CycleReturn a \<Rightarrow> Return a
      | CycleContinue a gameCycle \<Rightarrow>
          if nodeType \<noteq> Root
             \<and> (threads_stop nf \<or> pos_is_draw nf \<or> ss_ply nf \<ge> MAX_PLY vc) then
            Return (if ss_ply nf \<ge> MAX_PLY vc \<and> \<not> ss_inCheck nf then pos_evaluate nf
                    else value_draw vc (thread_nodes nf))
          else Proceed a beta gameCycle)"

section \<open>Null-move pruning: the reduced search\<close>

text \<open>
  The arguments of the recursive call
  \<open>search<NonPV>(pos, ss + 1, -beta, -beta + 1, depth - R, !cutNode)\<close> made after
  \<open>do_null_move\<close>.
\<close>

record search_call =
  call_alpha :: Value
  call_beta :: Value
  call_depth :: Depth
  call_cutNode :: bool

text \<open>search.cpp: \<open>Depth R = std::min(int(eval - beta) / 144, 6) + depth / 3 + 4\<close>.\<close>

definition null_move_R :: "Value \<Rightarrow> Value \<Rightarrow> Depth \<Rightarrow> Depth" where
  "null_move_R eval beta depth = min (cdiv (eval - beta) 144) 6 + cdiv depth 3 + 4"

definition null_move_call :: "Value \<Rightarrow> Value \<Rightarrow> Depth \<Rightarrow> bool \<Rightarrow> search_call" where
  "null_move_call eval beta depth cutNode =
     \<lparr> call_alpha = - beta, call_beta = - beta + 1,
       call_depth = depth - null_move_R eval beta depth, call_cutNode = \<not> cutNode \<rparr>"

text \<open>
  The classic search. With \<open>SearchMate = false\<close>:
  \<open>R = std::min(int(eval - beta) / 168, 7) + depth / 3 + 4 - (complexity > 861)\<close>;
  with \<open>SearchMate = true\<close>: \<open>R = std::min(int(eval - beta) / 173, 6) + depth / 3 + 4\<close>.
\<close>

definition classic_null_move_R :: "bool \<Rightarrow> Value \<Rightarrow> Value \<Rightarrow> Depth \<Rightarrow> int \<Rightarrow> Depth" where
  "classic_null_move_R SearchMate eval beta depth complexity =
     (if \<not> SearchMate then
        min (cdiv (eval - beta) 168) 7 + cdiv depth 3 + 4 - (if complexity > 861 then 1 else 0)
      else min (cdiv (eval - beta) 173) 6 + cdiv depth 3 + 4)"

definition classic_null_move_call ::
  "bool \<Rightarrow> Value \<Rightarrow> Value \<Rightarrow> Depth \<Rightarrow> int \<Rightarrow> bool \<Rightarrow> search_call" where
  "classic_null_move_call SearchMate eval beta depth complexity cutNode =
     \<lparr> call_alpha = - beta, call_beta = - beta + 1,
       call_depth = depth - classic_null_move_R SearchMate eval beta depth complexity,
       call_cutNode = \<not> cutNode \<rparr>"

section \<open>Squares, pieces and moves\<close>

text \<open>
  Modelled from the spec: types.h and bitboard.h are not among the sources. The spec
  gives squares as integers in \<open>[0,63]\<close> with files a to h and ranks 1 to 8, colours,
  piece types, pieces as a colour with a piece type or empty, 64-bit bitboards, and moves
  encoded as (from, to, promotion-piece, type) with the sentinels none and null. The
  numbering of the enumerations and the 16-bit layout of a move are those of the
  Stockfish release the sources derive from: a piece is \<open>8 * colour + piece type\<close>, a
  move holds the destination in bits 0-5, the origin in bits 6-11, the promotion piece
  minus \<open>KNIGHT\<close> in bits 12-13 and the move type in bits 14-15.
\<close>

type_synonym Square = nat
type_synonym Color = nat
type_synonym PieceType = nat
type_synonym Piece = nat
type_synonym Bitboard = "64 word"
type_synonym Move = "16 word"
type_synonym MoveType = "16 word"

definition WHITE :: Color where "WHITE = 0"
definition BLACK :: Color where "BLACK = 1"

definition ALL_PIECES :: PieceType where "ALL_PIECES = 0"
definition PAWN :: PieceType where "PAWN = 1"
definition KNIGHT :: PieceType where "KNIGHT = 2"
definition BISHOP :: PieceType where "BISHOP = 3"
definition ROOK :: PieceType where "ROOK = 4"
definition QUEEN :: PieceType where "QUEEN = 5"
definition KING :: PieceType where "KING = 6"

definition NO_PIECE :: Piece where "NO_PIECE = 0"

definition make_piece :: "Color \<Rightarrow> PieceType \<Rightarrow> Piece" where
  "make_piece c pt = c * 8 + pt"

definition type_of_piece :: "Piece \<Rightarrow> PieceType" where
  "type_of_piece pc = pc mod 8"

definition color_of :: "Piece \<Rightarrow> Color" where
  "color_of pc = pc div 8"

definition FILE_C :: nat where "FILE_C = 2"
definition FILE_G :: nat where "FILE_G = 6"

definition file_of :: "Square \<Rightarrow> nat" where
  "file_of s = s mod 8"

definition rank_of :: "Square \<Rightarrow> nat" where
  "rank_of s = s div 8"

definition make_square :: "nat \<Rightarrow> nat \<Rightarrow> Square" where
  "make_square f r = r * 8 + f"

definition square_bb :: "Square \<Rightarrow> Bitboard" where
  "square_bb s = push_bit s 1"

definition NORMAL :: MoveType where "NORMAL = 0"
definition PROMOTION :: MoveType where "PROMOTION = 0x4000"
definition EN_PASSANT :: MoveType where "EN_PASSANT = 0x8000"
definition CASTLING :: MoveType where "CASTLING = 0xC000"

definition Move_none :: Move where "Move_none = 0"
definition Move_null :: Move where "Move_null = 65"

definition make_move :: "MoveType \<Rightarrow> Square \<Rightarrow> Square \<Rightarrow> PieceType \<Rightarrow> Move" where
  "make_move T from to pt =
     T + push_bit 12 (of_nat (pt - KNIGHT)) + push_bit 6 (of_nat from) + of_nat to"

definition from_sq :: "Move \<Rightarrow> Square" where
  "from_sq m = unat (drop_bit 6 m AND 0x3F)"

definition to_sq :: "Move \<Rightarrow> Square" where
  "to_sq m = unat (m AND 0x3F)"

definition type_of :: "Move \<Rightarrow> MoveType" where
  "type_of m = m AND 0xC000"

definition promotion_type :: "Move \<Rightarrow> PieceType" where
  "promotion_type m = unat (drop_bit 12 m AND 3) + KNIGHT"

definition is_ok :: "Move \<Rightarrow> bool" where
  "is_ok m = (m \<noteq> Move_none \<and> m \<noteq> Move_null)"

section \<open>Position: piece placement (position.h)\<close>

text \<open>
  The fields of \<open>Position\<close> that \<open>put_piece\<close>, \<open>remove_piece\<close>, \<open>move_piece\<close>, \<open>capture\<close>
  and \<open>capture_stage\<close> read or write. The arrays are functions of the index; the
  piece-square table \<open>PSQT::psq\<close> (psqt.h, not among the sources) is a parameter.
\<close>

record Position =
  board :: "Square \<Rightarrow> Piece"
  byTypeBB :: "PieceType \<Rightarrow> Bitboard"
  byColorBB :: "Color \<Rightarrow> Bitboard"
  pieceCount :: "Piece \<Rightarrow> int"
  psq :: int

definition piece_on :: "Position \<Rightarrow> Square \<Rightarrow> Piece" where
  "piece_on pos s = board pos s"

definition empty_sq :: "Position \<Rightarrow> Square \<Rightarrow> bool" where
  "empty_sq pos s = (piece_on pos s = NO_PIECE)"

definition capture :: "Position \<Rightarrow> Move \<Rightarrow> bool" where
  "capture pos m =
     ((\<not> empty_sq pos (to_sq m) \<and> type_of m \<noteq> CASTLING) \<or> type_of m = EN_PASSANT)"

definition capture_stage :: "Position \<Rightarrow> Move \<Rightarrow> bool" where
  "capture_stage pos m = (capture pos m \<or> promotion_type m = QUEEN)"

text \<open>
  \<open>byTypeBB[ALL_PIECES] |= byTypeBB[type_of(pc)] |= s\<close> first adds the square to the
  bitboard of the piece type, then ors that bitboard into the one of all pieces.
\<close>

definition put_piece :: "(Piece \<Rightarrow> Square \<Rightarrow> int) \<Rightarrow> Piece \<Rightarrow> Square \<Rightarrow> Position \<Rightarrow> Position" where
  "put_piece psqt pc s pos =
     (let b1 = (board pos)(s := pc);
          t1 = (byTypeBB pos)(type_of_piece pc := byTypeBB pos (type_of_piece pc) OR square_bb s);
          t2 = t1(ALL_PIECES := t1 ALL_PIECES OR t1 (type_of_piece pc));
          c1 = (byColorBB pos)(color_of pc := byColorBB pos (color_of pc) OR square_bb s);
          n1 = (pieceCount pos)(pc := pieceCount pos pc + 1);
          n2 = n1(make_piece (color_of pc) ALL_PIECES
                    := n1 (make_piece (color_of pc) ALL_PIECES) + 1)
      in pos\<lparr> board := b1, byTypeBB := t2, byColorBB := c1, pieceCount := n2,
              psq := psq pos + psqt pc s \<rparr>)"

definition remove_piece :: "(Piece \<Rightarrow> Square \<Rightarrow> int) \<Rightarrow> Square \<Rightarrow> Position \<Rightarrow> Position" where
  "remove_piece psqt s pos =
     (let pc = board pos s;
          t1 = (byTypeBB pos)(ALL_PIECES := byTypeBB pos ALL_PIECES XOR square_bb s);
          t2 = t1(type_of_piece pc := t1 (type_of_piece pc) XOR square_bb s);
          c1 = (byColorBB pos)(color_of pc := byColorBB pos (color_of pc) XOR square_bb s);
          b1 = (board pos)(s := NO_PIECE);
          n1 = (pieceCount pos)(pc := pieceCount pos pc - 1);
          n2 = n1(make_piece (color_of pc) ALL_PIECES
                    := n1 (make_piece (color_of pc) ALL_PIECES) - 1)
      in pos\<lparr> board := b1, byTypeBB := t2, byColorBB := c1, pieceCount := n2,
              psq := psq pos - psqt pc s \<rparr>)"

definition move_piece :: "(Piece \<Rightarrow> Square \<Rightarrow> int) \<Rightarrow> Square \<Rightarrow> Square \<Rightarrow> Position \<Rightarrow> Position" where
  "move_piece psqt from to pos =
     (let pc = board pos from;
          fromTo = square_bb from OR square_bb to;
          t1 = (byTypeBB pos)(ALL_PIECES := byTypeBB pos ALL_PIECES XOR fromTo);
          t2 = t1(type_of_piece pc := t1 (type_of_piece pc) XOR fromTo);
          c1 = (byColorBB pos)(color_of pc := byColorBB pos (color_of pc) XOR fromTo);
          b1 = (board pos)(from := NO_PIECE);
          b2 = b1(to := pc)
      in pos\<lparr> board := b2, byTypeBB := t2, byColorBB := c1,
              psq := psq pos + (psqt pc to - psqt pc from) \<rparr>)"

text \<open>
  The invariant of the bitboards: all pieces are the white and the black ones, the
  bitboards of the six piece types are pairwise disjoint, and their union is the
  bitboard of all pieces.
\<close>

definition bb_invariant :: "Position \<Rightarrow> bool" where
  "bb_invariant pos =
     (byTypeBB pos ALL_PIECES = byColorBB pos WHITE OR byColorBB pos BLACK
      \<and> (\<forall>t1 \<in> {PAWN..KING}. \<forall>t2 \<in> {PAWN..KING}.
            t1 \<noteq> t2 \<longrightarrow> byTypeBB pos t1 AND byTypeBB pos t2 = 0)
      \<and> byTypeBB pos PAWN OR byTypeBB pos KNIGHT OR byTypeBB pos BISHOP
          OR byTypeBB pos ROOK OR byTypeBB pos QUEEN OR byTypeBB pos KING
          = byTypeBB pos ALL_PIECES)"

text \<open>
  The board array agrees with the bitboards: an empty square is in no bitboard, and the
  piece on an occupied square is a piece of one of the six types and of one of the two
  colours, whose square is in the bitboard of its type and of its colour and not in the
  bitboard of the other colour.
\<close>

definition is_piece :: "Piece \<Rightarrow> bool" where
  "is_piece pc = (type_of_piece pc \<in> {PAWN..KING} \<and> color_of pc \<in> {WHITE, BLACK})"

definition board_agrees :: "Position \<Rightarrow> bool" where
  "board_agrees pos =
     (\<forall>s < 64.
        if board pos s = NO_PIECE then \<not> bit (byTypeBB pos ALL_PIECES) s
        else is_piece (board pos s)
           \<and> bit (byTypeBB pos (type_of_piece (board pos s))) s
           \<and> bit (byColorBB pos (color_of (board pos s))) s
           \<and> \<not> bit (byColorBB pos (1 - color_of (board pos s))) s)"

text \<open>The bitboard invariant, bit by bit, for the two arrays of bitboards.\<close>

definition inv_bits :: "(PieceType \<Rightarrow> Bitboard) \<Rightarrow> (Color \<Rightarrow> Bitboard) \<Rightarrow> bool" where
  "inv_bits T C \<longleftrightarrow>
     (\<forall>n. bit (T ALL_PIECES) n \<longleftrightarrow> bit (C WHITE) n \<or> bit (C BLACK) n)
   \<and> (\<forall>t1 \<in> {PAWN..KING}. \<forall>t2 \<in> {PAWN..KING}. t1 \<noteq> t2 \<longrightarrow>
         (\<forall>n. \<not> (bit (T t1) n \<and> bit (T t2) n)))
   \<and> (\<forall>n. (\<exists>t \<in> {PAWN..KING}. bit (T t) n) \<longleftrightarrow> bit (T ALL_PIECES) n)"

text \<open>The cleared position: no piece on any square, every bitboard and count zero.\<close>

definition empty_pos :: Position where
  "empty_pos = \<lparr> board = (\<lambda>s. NO_PIECE), byTypeBB = (\<lambda>t. 0), byColorBB = (\<lambda>c. 0),
                 pieceCount = (\<lambda>pc. 0), psq = 0 \<rparr>"

section \<open>Moves in coordinate notation (uci.cpp)\<close>

definition UCI_square :: "Square \<Rightarrow> string" where
  "UCI_square s = [char_of (97 + file_of s), char_of (49 + rank_of s)]"

definition UCI_move :: "Move \<Rightarrow> bool \<Rightarrow> string" where
  "UCI_move m chess960 =
     (if m = Move_none then ''(none)''
      else if m = Move_null then ''0000''
      else
        let from = from_sq m;
            to = to_sq m;
            to = (if type_of m = CASTLING \<and> \<not> chess960
                  then make_square (if to > from then FILE_G else FILE_C) (rank_of from)
                  else to);
            move = UCI_square from @ UCI_square to
        in if type_of m = PROMOTION then move @ ['' pnbrqk'' ! promotion_type m]
           else move)"

section \<open>Continuation histories (search.cpp and the classic search)\<close>


type_synonym PieceToHistory = "Piece \<Rightarrow> Square \<Rightarrow> int"
type_synonym TableStore = "nat \<Rightarrow> PieceToHistory"

definition update_entry ::
  "(int \<Rightarrow> int \<Rightarrow> int) \<Rightarrow> nat \<Rightarrow> Piece \<Rightarrow> Square \<Rightarrow> int \<Rightarrow> TableStore \<Rightarrow> TableStore" where
  "update_entry upd p pc to b h = h(p := (h p)(pc := (h p pc)(to := upd (h p pc to) b)))"




section \<open>Quiescence search: stand pat, move loop and final value\<close>

text \<open>
  Modelled from the spec: \<open>mated_in\<close> is declared in types.h, which is not among the
  sources. A mate score counts the plies from the root: being mated at ply \<open>ply\<close> is
  \<open>-VALUE_MATE + ply\<close>.
\<close>

definition mated_in :: "value_consts \<Rightarrow> int \<Rightarrow> Value" where
  "mated_in vc ply = - VALUE_MATE vc + ply"

text \<open>search.cpp: \<open>std::clamp(v, VALUE_TB_LOSS_IN_MAX_PLY + 1, VALUE_TB_WIN_IN_MAX_PLY - 1)\<close>.\<close>

definition to_static_eval :: "value_consts \<Rightarrow> int \<Rightarrow> Value" where
  "to_static_eval vc v =
     (if v < VALUE_TB_LOSS_IN_MAX_PLY vc + 1 then VALUE_TB_LOSS_IN_MAX_PLY vc + 1
      else if VALUE_TB_WIN_IN_MAX_PLY vc - 1 < v then VALUE_TB_WIN_IN_MAX_PLY vc - 1
      else v)"

text \<open>
  What \<open>qsearch\<close> reads at a node once the draw test and the transposition-table cutoff
  are behind it: the template parameters, \<open>ss->inCheck\<close>, \<open>ss->ply\<close>, beta, the
  transposition-table entry (\<open>ss->ttHit\<close>, \<open>tte->eval()\<close>, the value \<open>ttValue\<close> as
  \<open>value_from_tt\<close> returned it, and whether \<open>tte->bound()\<close> has the lower and the upper
  bit), \<open>evaluate(pos)\<close>, whether the previous move is the null move and the static
  evaluation of the previous frame, the correction-history entry of the position,
  whether \<open>pos.non_pawn_material(us)\<close> is non-zero and whether the Shashin range is
  \<open>SHASHIN_POSITION_HIGH_TAL\<close>.
\<close>

record qs_node =
  qs_PvNode :: bool
  qs_Shashin :: bool
  qs_inCheck :: bool
  qs_ply :: int
  qs_beta :: Value
  qs_ttHit :: bool
  qs_tte_eval :: Value
  qs_ttValue :: Value
  qs_bound_lower :: bool
  qs_bound_upper :: bool
  qs_evaluate :: Value
  qs_prev_is_null :: bool
  qs_prev_staticEval :: Value
  qs_correction :: int
  qs_non_pawn_material :: bool
  qs_high_tal :: bool

text \<open>
  What the loop reads of a move the move picker yields: \<open>pos.legal\<close>, \<open>pos.gives_check\<close>,
  \<open>pos.capture_stage\<close> (\<open>pos.capture\<close> in the classic search), whether it goes to the
  square of the previous move, whether it is a promotion, the value of the piece on its
  destination, \<open>pos.see_ge(move, threshold)\<close> as a function of the threshold, the two
  continuation-history entries, and the value \<open>-qsearch(pos, ss + 1, -beta, -alpha)\<close> of
  the position after the move as a function of alpha and beta.
\<close>

record qs_move =
  qm_legal :: bool
  qm_givesCheck :: bool
  qm_capture :: bool
  qm_to_prevSq :: bool
  qm_promotion :: bool
  qm_victim_value :: Value
  qm_see_ge :: "int \<Rightarrow> bool"
  qm_contHist0 :: int
  qm_contHist1 :: int
  qm_child_value :: "Value \<Rightarrow> Value \<Rightarrow> Value"

text \<open>
  Step 4 of search.cpp's \<open>qsearch\<close> when the side to move is not in check: the static
  evaluation \<open>ss->staticEval\<close> and the value \<open>bestValue\<close> the node stands pat on.
\<close>

definition qs_staticEval :: "value_consts \<Rightarrow> qs_node \<Rightarrow> Value" where
  "qs_staticEval vc nd =
     (let unadjusted =
        (if qs_ttHit nd then
           (if qs_tte_eval nd = VALUE_NONE vc then qs_evaluate nd else qs_tte_eval nd)
         else if \<not> qs_prev_is_null nd then qs_evaluate nd else - qs_prev_staticEval nd)
      in to_static_eval vc (unadjusted + cdiv (qs_correction nd) 32))"

definition qs_stand_pat :: "value_consts \<Rightarrow> qs_node \<Rightarrow> Value" where
  "qs_stand_pat vc nd =
     (let bestValue = qs_staticEval vc nd in
      if qs_ttHit nd \<and> qs_ttValue nd \<noteq> VALUE_NONE vc
         \<and> (if qs_ttValue nd > bestValue then qs_bound_lower nd else qs_bound_upper nd)
      then qs_ttValue nd else bestValue)"

text \<open>
  Step 6 for one legal move: the move is skipped, possibly with a new \<open>bestValue\<close>
  (\<open>continue\<close>), the loop is left (\<open>break\<close>), or the move is searched.
\<close>

datatype prune = Skip Value | Leave | Search

definition qs_futility ::
  "value_consts \<Rightarrow> qs_node \<Rightarrow> Value \<Rightarrow> qs_move \<Rightarrow> Value \<Rightarrow> Value \<Rightarrow> int \<Rightarrow> prune option" where
  "qs_futility vc nd futilityBase m alpha bestValue moveCount =
     (if \<not> qm_givesCheck m \<and> \<not> qm_to_prevSq m
         \<and> futilityBase > VALUE_TB_LOSS_IN_MAX_PLY vc \<and> \<not> qm_promotion m then
        (if (\<not> qs_Shashin nd \<and> moveCount > 2)
            \<or> (qs_Shashin nd
               \<and> moveCount > 2 + (if \<not> qs_high_tal nd then 0
                                   else if qs_PvNode nd then 1 else 0))
         then Some (Skip bestValue)
         else
           let futilityValue = futilityBase + qm_victim_value m in
           if futilityValue \<le> alpha then Some (Skip (max bestValue futilityValue))
           else if futilityBase \<le> alpha \<and> \<not> qm_see_ge m 1
           then Some (Skip (max bestValue futilityBase))
           else if futilityBase > alpha \<and> \<not> qm_see_ge m ((alpha - futilityBase) * 4)
           then Some (Skip alpha)
           else None)
      else None)"

definition qs_prune ::
  "value_consts \<Rightarrow> qs_node \<Rightarrow> Value \<Rightarrow> qs_move \<Rightarrow> Value \<Rightarrow> Value \<Rightarrow> int \<Rightarrow> int \<Rightarrow> prune" where
  "qs_prune vc nd futilityBase m alpha bestValue moveCount quietCheckEvasions =
     (if bestValue > VALUE_TB_LOSS_IN_MAX_PLY vc \<and> qs_non_pawn_material nd then
        (case qs_futility vc nd futilityBase m alpha bestValue moveCount of
           Some r \<Rightarrow> r
         | None \<Rightarrow>
             if quietCheckEvasions > 1 then Leave
             else if \<not> qm_capture m \<and> qm_contHist0 m < 0 \<and> qm_contHist1 m < 0
             then Skip bestValue
             else if \<not> qm_see_ge m (- 77) then Skip bestValue
             else Search)
      else Search)"

text \<open>
  Steps 5 to 8: the loop over the moves of the move picker, from the current alpha,
  \<open>bestValue\<close>, \<open>moveCount\<close> and \<open>quietCheckEvasions\<close>; it yields the \<open>bestValue\<close> the loop
  ends with.
\<close>

fun qs_loop ::
  "value_consts \<Rightarrow> qs_node \<Rightarrow> Value \<Rightarrow> qs_move list \<Rightarrow> Value \<Rightarrow> Value \<Rightarrow> int \<Rightarrow> int
     \<Rightarrow> Value" where
  "qs_loop vc nd futilityBase [] alpha bestValue moveCount quietCheckEvasions = bestValue"
| "qs_loop vc nd futilityBase (m # ms) alpha bestValue moveCount quietCheckEvasions =
     (if \<not> qm_legal m
      then qs_loop vc nd futilityBase ms alpha bestValue moveCount quietCheckEvasions
      else
        case qs_prune vc nd futilityBase m alpha bestValue (moveCount + 1)
               quietCheckEvasions of
          Skip bv \<Rightarrow> qs_loop vc nd futilityBase ms alpha bv (moveCount + 1) quietCheckEvasions
        | Leave \<Rightarrow> bestValue
        | Search \<Rightarrow>
            (let qce = quietCheckEvasions
                         + (if \<not> qm_capture m \<and> qs_inCheck nd then 1 else 0);
                 v = qm_child_value m alpha (qs_beta nd)
             in if v > bestValue then
                  (if v > alpha then
                     (if v \<ge> qs_beta nd then v
                      else qs_loop vc nd futilityBase ms v v (moveCount + 1) qce)
                   else qs_loop vc nd futilityBase ms alpha v (moveCount + 1) qce)
                else qs_loop vc nd futilityBase ms alpha bestValue (moveCount + 1) qce))"

text \<open>Step 9 and the final value.\<close>

definition qs_finish :: "value_consts \<Rightarrow> qs_node \<Rightarrow> Value \<Rightarrow> Value" where
  "qs_finish vc nd bestValue =
     (if qs_inCheck nd \<and> bestValue = - VALUE_INFINITE vc then mated_in vc (qs_ply nd)
      else if \<bar>bestValue\<bar> < VALUE_TB_WIN_IN_MAX_PLY vc \<and> bestValue \<ge> qs_beta nd
      then cdiv (3 * bestValue + qs_beta nd) 4
      else bestValue)"

text \<open>
  search.cpp's \<open>qsearch\<close> from Step 4 on, for the moves the move picker yields. The
  writes to the transposition table and to the stack frame do not change the value
  returned and are left out.
\<close>

definition qsearch_from_step4 ::
  "value_consts \<Rightarrow> qs_node \<Rightarrow> qs_move list \<Rightarrow> Value \<Rightarrow> Value" where
  "qsearch_from_step4 vc nd moves alpha =
     (if qs_inCheck nd then
        qs_finish vc nd
          (qs_loop vc nd (- VALUE_INFINITE vc) moves alpha (- VALUE_INFINITE vc) 0 0)
      else
        let bestValue = qs_stand_pat vc nd in
        if bestValue \<ge> qs_beta nd then bestValue
        else
          qs_finish vc nd
            (qs_loop vc nd (qs_staticEval vc nd + 182) moves
               (if bestValue > alpha then bestValue else alpha) bestValue 0 0))"


text \<open>
  The classic search, \<open>qsearch<nodeType, SearchMate>\<close> with \<open>SearchMate = false\<close>, from
  Step 4 on. The value the node stands pat on:
\<close>

definition classic_qs_stand_pat :: "value_consts \<Rightarrow> qs_node \<Rightarrow> Value" where
  "classic_qs_stand_pat vc nd =
     (if qs_ttHit nd then
        (let bestValue =
           (if qs_tte_eval nd = VALUE_NONE vc then qs_evaluate nd else qs_tte_eval nd)
         in if qs_ttValue nd \<noteq> VALUE_NONE vc
               \<and> (if qs_ttValue nd > bestValue then qs_bound_lower nd
                   else qs_bound_upper nd)
            then qs_ttValue nd else bestValue)
      else if \<not> qs_prev_is_null nd then qs_evaluate nd else - qs_prev_staticEval nd)"

definition classic_qs_prune ::
  "value_consts \<Rightarrow> qs_node \<Rightarrow> Value \<Rightarrow> qs_move \<Rightarrow> Value \<Rightarrow> Value \<Rightarrow> int \<Rightarrow> int \<Rightarrow> prune" where
  "classic_qs_prune vc nd futilityBase m alpha bestValue moveCount quietCheckEvasions =
     (case
        (if bestValue > VALUE_TB_LOSS_IN_MAX_PLY vc \<and> \<not> qm_givesCheck m
            \<and> \<not> qm_to_prevSq m \<and> futilityBase > - VALUE_KNOWN_WIN vc
            \<and> \<not> qm_promotion m then
           (if moveCount > 2 then Some (Skip bestValue)
            else
              let futilityValue = futilityBase + qm_victim_value m in
              if futilityValue \<le> alpha then Some (Skip (max bestValue futilityValue))
              else if futilityBase \<le> alpha \<and> \<not> qm_see_ge m 1
              then Some (Skip (max bestValue futilityBase))
              else None)
         else None)
      of
        Some r \<Rightarrow> r
      | None \<Rightarrow>
          if bestValue > VALUE_TB_LOSS_IN_MAX_PLY vc \<and> \<not> qm_see_ge m 0
          then Skip bestValue
          else if \<not> qm_capture m \<and> bestValue > VALUE_TB_LOSS_IN_MAX_PLY vc
                  \<and> qm_contHist0 m < 0 \<and> qm_contHist1 m < 0
          then Skip bestValue
          else if bestValue > VALUE_TB_LOSS_IN_MAX_PLY vc \<and> quietCheckEvasions > 1
          then Leave
          else Search)"

fun classic_qs_loop ::
  "value_consts \<Rightarrow> qs_node \<Rightarrow> Value \<Rightarrow> qs_move list \<Rightarrow> Value \<Rightarrow> Value \<Rightarrow> int \<Rightarrow> int
     \<Rightarrow> Value" where
  "classic_qs_loop vc nd futilityBase [] alpha bestValue moveCount quietCheckEvasions
     = bestValue"
| "classic_qs_loop vc nd futilityBase (m # ms) alpha bestValue moveCount quietCheckEvasions =
     (if \<not> qm_legal m
      then classic_qs_loop vc nd futilityBase ms alpha bestValue moveCount quietCheckEvasions
      else
        case classic_qs_prune vc nd futilityBase m alpha bestValue (moveCount + 1)
               quietCheckEvasions of
          Skip bv \<Rightarrow>
            classic_qs_loop vc nd futilityBase ms alpha bv (moveCount + 1) quietCheckEvasions
        | Leave \<Rightarrow> bestValue
        | Search \<Rightarrow>
            (let qce = quietCheckEvasions
                         + (if \<not> qm_capture m \<and> qs_inCheck nd then 1 else 0);
                 v = qm_child_value m alpha (qs_beta nd)
             in if v > bestValue then
                  (if v > alpha then
                     (if qs_PvNode nd \<and> v < qs_beta nd
                      then classic_qs_loop vc nd futilityBase ms v v (moveCount + 1) qce
                      else v)
                   else classic_qs_loop vc nd futilityBase ms alpha v (moveCount + 1) qce)
                else classic_qs_loop vc nd futilityBase ms alpha bestValue (moveCount + 1) qce))"

definition classic_qs_finish :: "value_consts \<Rightarrow> qs_node \<Rightarrow> Value \<Rightarrow> Value" where
  "classic_qs_finish vc nd bestValue =
     (if qs_inCheck nd \<and> bestValue = - VALUE_INFINITE vc then mated_in vc (qs_ply nd)
      else bestValue)"

definition classic_qsearch_from_step4 ::
  "value_consts \<Rightarrow> qs_node \<Rightarrow> qs_move list \<Rightarrow> Value \<Rightarrow> Value" where
  "classic_qsearch_from_step4 vc nd moves alpha =
     (if qs_inCheck nd then
        classic_qs_finish vc nd
          (classic_qs_loop vc nd (- VALUE_INFINITE vc) moves alpha (- VALUE_INFINITE vc) 0 0)
      else
        let bestValue = classic_qs_stand_pat vc nd in
        if bestValue \<ge> qs_beta nd then bestValue
        else
          classic_qs_finish vc nd
            (classic_qs_loop vc nd (bestValue + 153) moves
               (if qs_PvNode nd \<and> bestValue > alpha then bestValue else alpha)
               bestValue 0 0))"

text \<open>
  Two concrete inputs: a node not in check, without a transposition-table hit and with
  a zero correction, whose position evaluates to \<open>ev\<close>; and a legal capture that gives
  check, passes every exchange test and leads to a position of value \<open>v\<close>.
\<close>

definition quiet_node :: "Value \<Rightarrow> Value \<Rightarrow> qs_node" where
  "quiet_node ev beta =
     \<lparr> qs_PvNode = False, qs_Shashin = False, qs_inCheck = False, qs_ply = 3,
       qs_beta = beta, qs_ttHit = False, qs_tte_eval = 0, qs_ttValue = 32002,
       qs_bound_lower = False, qs_bound_upper = False, qs_evaluate = ev,
       qs_prev_is_null = False, qs_prev_staticEval = 0, qs_correction = 0,
       qs_non_pawn_material = True, qs_high_tal = False \<rparr>"

definition checking_capture :: "Value \<Rightarrow> qs_move" where
  "checking_capture v =
     \<lparr> qm_legal = True, qm_givesCheck = True, qm_capture = True, qm_to_prevSq = False,
       qm_promotion = False, qm_victim_value = 208, qm_see_ge = (\<lambda>t. True),
       qm_contHist0 = 0, qm_contHist1 = 0, qm_child_value = (\<lambda>alpha beta. v) \<rparr>"

section \<open>A search node without a searched move: tablebase bound and Step 21\<close>

text \<open>
  The variants of \<open>search\<close>: search.cpp's \<open>search<nodeType, Shashin>\<close>, with the flag
  whether the thread's Shashin range is \<open>SHASHIN_POSITION_CAPABLANCA\<close>, and the classic
  \<open>search<nodeType, SearchMate>\<close>.
\<close>

datatype search_variant = Modern bool bool | Classic bool

text \<open>The three local variables of \<open>search\<close> that Step 5 and Step 21 share.\<close>

record node_vars =
  nv_alpha :: Value
  nv_bestValue :: Value
  nv_maxValue :: Value

datatype step_result = Returned Value | Goes_on node_vars

text \<open>
  Step 5, the tablebase probe. \<open>conditions\<close> stands for \<open>TB::Cardinality\<close> being non-zero
  together with the tests on the piece count, the depth, the rule-50 counter and the
  castling rights; \<open>probe\<close> is what \<open>Tablebases::probe_wdl\<close> yields, \<open>None\<close> for
  \<open>ProbeState::FAIL\<close> and otherwise the \<open>WDLScore\<close> from -2 (loss) to 2 (win). The classic
  search with \<open>SearchMate = false\<close> probes also when a move is excluded, and the classic
  search scores a tablebase win or loss from \<open>VALUE_MATE_IN_MAX_PLY\<close>, search.cpp from
  \<open>VALUE_TB\<close>.
\<close>

datatype Bound = BOUND_UPPER | BOUND_LOWER | BOUND_EXACT

definition tb_step ::
  "value_consts \<Rightarrow> search_variant \<Rightarrow> NodeType \<Rightarrow> Move \<Rightarrow> bool \<Rightarrow> int option \<Rightarrow> bool
     \<Rightarrow> int \<Rightarrow> Value \<Rightarrow> node_vars \<Rightarrow> step_result" where
  "tb_step vc variant nodeType excludedMove conditions probe UseRule50 ply beta vars =
     (if nodeType \<noteq> Root \<and> (variant = Classic False \<or> excludedMove = Move_none)
         \<and> conditions then
        (case probe of
           None \<Rightarrow> Goes_on vars
         | Some wdl \<Rightarrow>
             let drawScore = (if UseRule50 then 1 else 0);
                 win = (case variant of
                          Modern s c \<Rightarrow> VALUE_TB vc - ply
                        | Classic sm \<Rightarrow> VALUE_MATE_IN_MAX_PLY vc - ply - 1);
                 loss = (case variant of
                          Modern s c \<Rightarrow> - (VALUE_TB vc - ply)
                        | Classic sm \<Rightarrow> VALUE_MATED_IN_MAX_PLY vc + ply + 1);
                 value = (if wdl < - drawScore then loss
                          else if wdl > drawScore then win
                          else VALUE_DRAW vc + 2 * wdl * drawScore);
                 b = (if wdl < - drawScore then BOUND_UPPER
                      else if wdl > drawScore then BOUND_LOWER
                      else BOUND_EXACT)
             in if b = BOUND_EXACT
                   \<or> (if b = BOUND_LOWER then value \<ge> beta else value \<le> nv_alpha vars)
                then Returned value
                else if nodeType \<noteq> NonPV then
                  (if b = BOUND_LOWER
                   then Goes_on (vars\<lparr> nv_bestValue := value,
                                       nv_alpha := max (nv_alpha vars) value \<rparr>)
                   else Goes_on (vars\<lparr> nv_maxValue := value \<rparr>))
                else Goes_on vars)
      else Goes_on vars)"

text \<open>
  Step 21 and the lines after it that decide the value returned, for the number of
  moves the loop has searched. The updates of the statistics and the write to the
  transposition table do not change the value and are left out.
\<close>

definition search_end ::
  "value_consts \<Rightarrow> search_variant \<Rightarrow> NodeType \<Rightarrow> int \<Rightarrow> Move \<Rightarrow> bool \<Rightarrow> int \<Rightarrow> node_vars
     \<Rightarrow> Value" where
  "search_end vc variant nodeType moveCount excludedMove inCheck ply vars =
     (let bestValue =
        (if moveCount = 0 then
           (if excludedMove \<noteq> Move_none then nv_alpha vars
            else if inCheck then mated_in vc ply
            else VALUE_DRAW vc)
         else nv_bestValue vars)
      in if nodeType \<noteq> NonPV
            \<and> (case variant of Modern Shashin capablanca \<Rightarrow> \<not> Shashin \<or> \<not> capablanca
                | Classic SearchMate \<Rightarrow> True)
         then min bestValue (nv_maxValue vars)
         else bestValue)"

text \<open>Whether the tablebase probe reports a loss for the side to move.\<close>

definition tb_reports_loss :: "bool \<Rightarrow> int option \<Rightarrow> bool" where
  "tb_reports_loss UseRule50 probe =
     (case probe of None \<Rightarrow> False
      | Some wdl \<Rightarrow> wdl < - (if UseRule50 then 1 else 0))"

section \<open>Theorems\<close>

subsection \<open>Mate scores in the transposition table\<close>

lemma wrap32_id: "is_int32 x \<Longrightarrow> wrap32 x = x"
  by (simp add: is_int32_def wrap32_def)

lemma wrap32_range: "is_int32 (wrap32 x)"
  by (simp add: is_int32_def wrap32_def)

lemma value_to_tt_cases:
  assumes "VALUE_TB_LOSS_IN_MAX_PLY vc < VALUE_TB_WIN_IN_MAX_PLY vc" and "0 \<le> ply"
    and "v \<ge> VALUE_TB_WIN_IN_MAX_PLY vc \<longrightarrow> is_int32 (v + ply)"
    and "v \<le> VALUE_TB_LOSS_IN_MAX_PLY vc \<longrightarrow> is_int32 (v - ply)"
  shows "(v \<ge> VALUE_TB_WIN_IN_MAX_PLY vc \<and> value_to_tt vc v ply = v + ply
            \<and> value_to_tt vc v ply \<ge> VALUE_TB_WIN_IN_MAX_PLY vc)
       \<or> (v \<le> VALUE_TB_LOSS_IN_MAX_PLY vc \<and> value_to_tt vc v ply = v - ply
            \<and> value_to_tt vc v ply \<le> VALUE_TB_LOSS_IN_MAX_PLY vc)
       \<or> (VALUE_TB_LOSS_IN_MAX_PLY vc < v \<and> v < VALUE_TB_WIN_IN_MAX_PLY vc
            \<and> value_to_tt vc v ply = v)"
  using assms by (auto simp: value_to_tt_def add32_def sub32_def wrap32_id)

lemma downgrades_sentinel:
  assumes "downgrades vc v r50c"
  shows "value_from_tt vc v ply r50c = sub32 (VALUE_TB_WIN_IN_MAX_PLY vc) 1
       \<or> value_from_tt vc v ply r50c = add32 (VALUE_TB_LOSS_IN_MAX_PLY vc) 1"
  using assms by (auto simp: downgrades_def value_from_tt_def split: if_splits)

text \<open>
  C1 (as amended). For every 32-bit value \<open>v\<close>, every ply with \<open>0 \<le> ply < MAX_PLY\<close> and
  every rule-50 counter, reading back what \<open>value_to_tt\<close> stored gives \<open>v\<close> again,
  provided the sum \<open>v + ply\<close> (for a \<open>v\<close> on the winning side) or the difference
  \<open>v - ply\<close> (for a \<open>v\<close> on the losing side) that \<open>value_to_tt\<close> computes stays within
  the range of \<open>int\<close>, the stored value is not \<open>VALUE_NONE\<close>, and no downgrade branch of
  \<open>value_from_tt\<close> fires for it. This holds for \<open>value_from_tt\<close> of search.cpp and for
  both instantiations of the classic template.
\<close>

theorem value_tt_roundtrip:
  assumes "VALUE_TB_LOSS_IN_MAX_PLY vc < VALUE_TB_WIN_IN_MAX_PLY vc"
    and "0 \<le> ply" and "ply < MAX_PLY vc"
    and "is_int32 v"
    and "v \<ge> VALUE_TB_WIN_IN_MAX_PLY vc \<longrightarrow> is_int32 (v + ply)"
    and "v \<le> VALUE_TB_LOSS_IN_MAX_PLY vc \<longrightarrow> is_int32 (v - ply)"
    and "value_to_tt vc v ply \<noteq> VALUE_NONE vc"
  shows "(\<not> downgrades vc (value_to_tt vc v ply) r50c \<longrightarrow>
            value_from_tt vc (value_to_tt vc v ply) ply r50c = v)
       \<and> (\<not> classic_downgrades sm vc (value_to_tt vc v ply) r50c \<longrightarrow>
            classic_value_from_tt sm vc (value_to_tt vc v ply) ply r50c = v)"
proof -
  note c = value_to_tt_cases [OF assms(1) assms(2) assms(5) assms(6)]
  have w: "wrap32 v = v" using assms(4) by (rule wrap32_id)
  have m: "\<not> downgrades vc (value_to_tt vc v ply) r50c \<Longrightarrow>
      value_from_tt vc (value_to_tt vc v ply) ply r50c = v"
    using c assms(1) assms(7) w unfolding downgrades_def value_from_tt_def
    by (auto simp: add32_def [of _ ply] sub32_def [of _ ply] split: if_splits)
  have k: "\<not> classic_downgrades sm vc (value_to_tt vc v ply) r50c \<Longrightarrow>
      classic_value_from_tt sm vc (value_to_tt vc v ply) ply r50c = v"
    using c assms(1) assms(7) w unfolding classic_downgrades_def classic_value_from_tt_def
    by (auto simp: add32_def [of _ ply] sub32_def [of _ ply] split: if_splits)
  from m k show ?thesis by blast
qed

theorem value_tt_roundtrip_witness:
  "value_from_tt sf_consts (value_to_tt sf_consts 31970 20) 20 50 = 31970
   \<and> classic_value_from_tt False sf_consts (value_to_tt sf_consts 31970 20) 20 50 = 31970"
  using value_tt_roundtrip [of sf_consts 20 31970 50 False]
  by (simp add: sf_consts_def value_to_tt_def downgrades_def classic_downgrades_def
      is_int32_def add32_def sub32_def wrap32_def)

text \<open>
  The claim as stated fails where the stored value collides with \<open>VALUE_NONE\<close>:
  \<open>VALUE_MATE\<close>, a value distinct from \<open>VALUE_NONE\<close> and strictly between
  \<open>-VALUE_INFINITE\<close> and \<open>VALUE_INFINITE\<close> as the callers of \<open>value_to_tt\<close> assert, is
  stored at ply 2 as \<open>VALUE_NONE\<close>; no downgrade branch fires, and \<open>VALUE_NONE\<close> is read
  back, by \<open>value_from_tt\<close> of search.cpp and by the classic one. It also fails where
  the sum leaves the range of \<open>int\<close>: the largest \<open>int\<close> at ply 1 is stored as the
  smallest, no downgrade branch fires, and the smallest plus one is read back.
\<close>

theorem value_tt_roundtrip_counterexample:
  "(32000::int) \<noteq> VALUE_NONE sf_consts
   \<and> - VALUE_INFINITE sf_consts < 32000 \<and> 32000 < VALUE_INFINITE sf_consts
   \<and> (0::int) \<le> 2 \<and> 2 < MAX_PLY sf_consts
   \<and> value_to_tt sf_consts 32000 2 = VALUE_NONE sf_consts
   \<and> \<not> downgrades sf_consts (value_to_tt sf_consts 32000 2) 0
   \<and> \<not> sub32 (VALUE_MATE sf_consts) (value_to_tt sf_consts 32000 2) > sub32 100 0
   \<and> \<not> sub32 (VALUE_TB sf_consts) (value_to_tt sf_consts 32000 2) > sub32 100 0
   \<and> value_from_tt sf_consts (value_to_tt sf_consts 32000 2) 2 0 = 32002
   \<and> value_from_tt sf_consts (value_to_tt sf_consts 32000 2) 2 0 \<noteq> 32000
   \<and> classic_value_from_tt False sf_consts (value_to_tt sf_consts 32000 2) 2 0 \<noteq> 32000
   \<and> classic_value_from_tt True sf_consts (value_to_tt sf_consts 32000 2) 2 0 \<noteq> 32000
   \<and> (2147483647::int) \<noteq> VALUE_NONE sf_consts \<and> is_int32 2147483647
   \<and> (0::int) \<le> 1 \<and> 1 < MAX_PLY sf_consts
   \<and> value_to_tt sf_consts 2147483647 1 = - 2147483648
   \<and> \<not> downgrades sf_consts (value_to_tt sf_consts 2147483647 1) 0
   \<and> value_from_tt sf_consts (value_to_tt sf_consts 2147483647 1) 1 0 = - 2147483647"
  by (simp add: sf_consts_def value_to_tt_def downgrades_def value_from_tt_def
      classic_value_from_tt_def is_int32_def add32_def sub32_def wrap32_def)
subsection \<open>The start of a search node and the null-move reduction\<close>

lemma and_2_cases: "(n :: 64 word) AND 2 = (if bit n 1 then 2 else 0)"
  by (rule bit_eqI) (auto simp: bit_and_iff bit_2_iff)

lemma value_draw_cases:
  "value_draw vc n = VALUE_DRAW vc - 1 \<or> value_draw vc n = VALUE_DRAW vc + 1"
  by (simp add: value_draw_def and_2_cases)

lemma cdiv_nonneg: "0 \<le> a \<Longrightarrow> 0 < b \<Longrightarrow> cdiv a b = a div b"
  by (cases "a = 0") (simp_all add: cdiv_def)





text \<open>
  C7 (as amended). For every non-root node of search.cpp with \<open>depth > 0\<close> at which the
  stop flag is set, or \<open>is_draw(ss->ply)\<close> holds, or \<open>ss->ply \<ge> MAX_PLY\<close>: when
  \<open>ss->ply < MAX_PLY\<close> or the side to move is in check, the search returns the draw score
  with jitter \<open>VALUE_DRAW - 1 + (nodes & 2)\<close>, which is \<open>VALUE_DRAW - 1\<close> or
  \<open>VALUE_DRAW + 1\<close>; when \<open>ss->ply \<ge> MAX_PLY\<close> and the side to move is not in check, it
  returns \<open>evaluate(pos)\<close> instead, unless the game-cycle step has already returned.
\<close>

theorem search_abort_value:
  assumes "nodeType \<noteq> Root" and "0 < depth"
    and "threads_stop nf \<or> pos_is_draw nf \<or> ss_ply nf \<ge> MAX_PLY vc"
  shows "(ss_ply nf < MAX_PLY vc \<or> ss_inCheck nf \<longrightarrow>
            search_entry vc nodeType Shashin nf alpha beta depth
              = Return (VALUE_DRAW vc - 1 + uint (thread_nodes nf AND 2)))
       \<and> (VALUE_DRAW vc - 1 + uint (thread_nodes nf AND 2) = VALUE_DRAW vc - 1
          \<or> VALUE_DRAW vc - 1 + uint (thread_nodes nf AND 2) = VALUE_DRAW vc + 1)
       \<and> (ss_ply nf \<ge> MAX_PLY vc \<and> \<not> ss_inCheck nf
            \<and> returned (search_cycle_step vc nodeType Shashin nf alpha beta) = None \<longrightarrow>
            search_entry vc nodeType Shashin nf alpha beta depth = Return (pos_evaluate nf))"
proof -
  have a: "ss_ply nf < MAX_PLY vc \<or> ss_inCheck nf \<Longrightarrow>
      search_entry vc nodeType Shashin nf alpha beta depth
        = Return (value_draw vc (thread_nodes nf))"
    using assms
    by (cases "search_cycle_step vc nodeType Shashin nf alpha beta")
       (auto simp: search_entry_def search_cycle_step_def Let_def split: if_splits)
  have b: "ss_ply nf \<ge> MAX_PLY vc \<and> \<not> ss_inCheck nf
      \<and> returned (search_cycle_step vc nodeType Shashin nf alpha beta) = None \<Longrightarrow>
      search_entry vc nodeType Shashin nf alpha beta depth = Return (pos_evaluate nf)"
    using assms
    by (cases "search_cycle_step vc nodeType Shashin nf alpha beta")
       (auto simp: search_entry_def)
  from a b value_draw_cases [of vc "thread_nodes nf"] show ?thesis
    unfolding value_draw_def by blast
qed

theorem search_abort_value_witness:
  "search_entry sf_consts NonPV False
      \<lparr> pos_rule50_count = 0, pos_has_game_cycle = False, thread_nodes = 7,
        threads_stop = True, pos_is_draw = False, ss_ply = 4, ss_inCheck = False,
        pos_evaluate = 30 \<rparr> 49 50 3 = Return 1"
  using search_abort_value [of NonPV 3
      "\<lparr> pos_rule50_count = 0, pos_has_game_cycle = False, thread_nodes = 7,
        threads_stop = True, pos_is_draw = False, ss_ply = 4, ss_inCheck = False,
        pos_evaluate = 30 \<rparr>" sf_consts False 49 50]
  by (simp add: sf_consts_def)

text \<open>
  The claim as stated fails at \<open>ss->ply = MAX_PLY\<close> when the side to move is not in
  check: the node returns \<open>evaluate(pos)\<close>, here 57, which is neither \<open>VALUE_DRAW - 1\<close>
  nor \<open>VALUE_DRAW + 1\<close>.
\<close>

theorem search_abort_value_counterexample:
  "search_entry sf_consts NonPV False
      \<lparr> pos_rule50_count = 0, pos_has_game_cycle = False, thread_nodes = 0,
        threads_stop = False, pos_is_draw = False, ss_ply = 246, ss_inCheck = False,
        pos_evaluate = 57 \<rparr> 49 50 3 = Return 57
   \<and> (57::int) \<noteq> VALUE_DRAW sf_consts - 1 \<and> (57::int) \<noteq> VALUE_DRAW sf_consts + 1
   \<and> MAX_PLY sf_consts = 246"
  by (simp add: search_entry_def search_cycle_step_def sf_consts_def)

text \<open>
  C4 (as amended). Where the null-move preconditions hold (so \<open>eval \<ge> beta\<close> and
  \<open>depth > 0\<close>), the search after \<open>do_null_move\<close> runs at depth \<open>depth - R\<close> with
  \<open>R = min((eval - beta)/144, 6) + depth/3 + 4\<close> in search.cpp, with
  \<open>R = min((eval - beta)/168, 7) + depth/3 + 4 - (complexity > 861)\<close> in the classic
  search and with \<open>R = min((eval - beta)/173, 6) + depth/3 + 4\<close> in the classic mate
  search.
\<close>

theorem null_move_reduction:
  assumes "beta \<le> eval" and "0 < depth"
  shows "call_depth (null_move_call eval beta depth cutNode)
           = depth - (min ((eval - beta) div 144) 6 + depth div 3 + 4)
       \<and> call_depth (classic_null_move_call False eval beta depth complexity cutNode)
           = depth - (min ((eval - beta) div 168) 7 + depth div 3 + 4
                      - (if complexity > 861 then 1 else 0))
       \<and> call_depth (classic_null_move_call True eval beta depth complexity cutNode)
           = depth - (min ((eval - beta) div 173) 6 + depth div 3 + 4)"
  using assms
  by (simp add: null_move_call_def null_move_R_def classic_null_move_call_def
        classic_null_move_R_def cdiv_nonneg)

theorem null_move_reduction_witness:
  "call_depth (null_move_call 400 100 12 False) = 2
   \<and> call_depth (classic_null_move_call False 400 100 12 900 False) = 4
   \<and> call_depth (classic_null_move_call True 400 100 12 900 False) = 3"
  using null_move_reduction [of 100 400 12 False 900]
  by simp

text \<open>
  The claim as stated fails in search.cpp: with \<open>eval - beta = 144\<close> and \<open>depth = 12\<close> the
  code reduces by 9, the claimed formula by 8.
\<close>

theorem null_move_reduction_counterexample:
  "null_move_R 144 0 12 = 9
   \<and> call_depth (null_move_call 144 0 12 False) = 3
   \<and> min (cdiv (144 - 0) 168) 6 + cdiv 12 3 + 4 = (8::int)"
  by (simp add: null_move_R_def null_move_call_def cdiv_def)


subsection \<open>The move encoding, coordinate notation and captures\<close>

lemma unat_make_castling:
  assumes "from < 64" and "to < 64"
  shows "unat (make_move CASTLING from to KNIGHT) = 49152 + 64 * from + to"
  using assms
  apply (simp add: make_move_def CASTLING_def KNIGHT_def push_bit_eq_mult)
  apply (simp add: unat_word_ariths unat_of_nat)
  done

lemma c000: "(0xC000 :: 16 word) = push_bit 14 (mask 2)"
  by (simp add: mask_eq_exp_minus_1)

lemma and_C000: "(m :: 16 word) AND 0xC000 = push_bit 14 (drop_bit 14 m)"
  unfolding c000
  by (rule bit_eqI) (auto simp: bit_simps)

lemma and_3F: "(w :: 16 word) AND 0x3F = take_bit 6 w"
  by (simp add: take_bit_eq_mask mask_eq_exp_minus_1)

lemma and_3: "(w :: 16 word) AND 3 = take_bit 2 w"
  by (simp add: take_bit_eq_mask mask_eq_exp_minus_1)

lemma to_sq_unat: "to_sq m = unat m mod 64"
  by (simp add: to_sq_def and_3F take_bit_eq_mod unat_mod_distrib)

lemma from_sq_unat: "from_sq m = (unat m div 64) mod 64"
  by (simp add: from_sq_def and_3F take_bit_eq_mod drop_bit_eq_div
        unat_mod_distrib unat_div_distrib)

lemma promotion_type_unat: "promotion_type m = (unat m div 4096) mod 4 + KNIGHT"
  by (simp add: promotion_type_def and_3 take_bit_eq_mod drop_bit_eq_div
        unat_mod_distrib unat_div_distrib)

lemma type_of_unat: "type_of m = push_bit 14 (of_nat (unat m div 16384))"
proof -
  have "unat m div 16384 < 2 ^ 16"
    using unsigned_less [of m, where ?'a = nat] by (simp add: less_le_trans div_le_dividend le_less_trans)
  then have "drop_bit 14 m = of_nat (unat m div 16384)"
    by (simp add: word_unat_eq_iff drop_bit_eq_div unat_of_nat unat_div_distrib)
  then show ?thesis by (simp add: type_of_def and_C000)
qed

lemma castling_type:
  assumes "from < 64" and "to < 64"
  shows "type_of (make_move CASTLING from to KNIGHT) = CASTLING"
    and "promotion_type (make_move CASTLING from to KNIGHT) = KNIGHT"
    and "to_sq (make_move CASTLING from to KNIGHT) = to"
    and "from_sq (make_move CASTLING from to KNIGHT) = from"
proof -
  let ?n = "unat (make_move CASTLING from to KNIGHT)"
  have n: "?n = 49152 + 64 * from + to"
    by (rule unat_make_castling [OF assms])
  have x: "64 * from + to < 4096" using assms by simp
  have a: "?n div 16384 = 3"
    unfolding n using x by (intro div_nat_eqI) simp_all
  have "?n div 4096 = 12"
    unfolding n using x by (intro div_nat_eqI) simp_all
  then have b: "?n div 4096 mod 4 = 0" by simp
  have "49152 + 64 * from + to = to + (768 + from) * 64" by simp
  then have "?n mod 64 = to mod 64" unfolding n by (simp only: mod_mult_self1)
  then have c: "?n mod 64 = to" using assms by simp
  have "?n div 64 = 768 + from"
    unfolding n using assms by (intro div_nat_eqI) simp_all
  moreover have "(768 + from) mod 64 = from mod 64"
  proof -
    have "768 + from = from + 12 * 64" by simp
    then show ?thesis by (simp only: mod_mult_self1)
  qed
  ultimately have d: "?n div 64 mod 64 = from" using assms by simp
  show "type_of (make_move CASTLING from to KNIGHT) = CASTLING"
    unfolding type_of_unat a by (simp add: CASTLING_def)
  show "promotion_type (make_move CASTLING from to KNIGHT) = KNIGHT"
    by (simp add: promotion_type_unat b)
  show "to_sq (make_move CASTLING from to KNIGHT) = to"
    by (simp add: to_sq_unat c)
  show "from_sq (make_move CASTLING from to KNIGHT) = from"
    by (simp add: from_sq_unat d)
qed

lemma type_of_sentinels: "type_of Move_none = NORMAL" "type_of Move_null = NORMAL"
  by (simp_all add: type_of_def Move_none_def Move_null_def NORMAL_def)

lemma move_types_distinct:
  "CASTLING \<noteq> NORMAL" "PROMOTION \<noteq> NORMAL" "CASTLING \<noteq> EN_PASSANT" "PROMOTION \<noteq> CASTLING"
  by (simp_all add: CASTLING_def NORMAL_def PROMOTION_def EN_PASSANT_def)

lemma UCI_square_make_square:
  assumes "f < 8"
  shows "UCI_square (make_square f r) = [char_of (97 + f), char_of (49 + r)]"
  using assms by (simp add: UCI_square_def make_square_def file_of_def rank_of_def)

lemma chars_gc: "char_of (103::nat) = CHR ''g''" "char_of (99::nat) = CHR ''c''"
  by code_simp+

lemma promotion_letter:
  "'' pnbrqk'' ! promotion_type m =
     (if promotion_type m = KNIGHT then CHR ''n''
      else if promotion_type m = BISHOP then CHR ''b''
      else if promotion_type m = ROOK then CHR ''r'' else CHR ''q'')"
proof -
  have "unat m div 4096 mod 4 < 4" by simp
  then have "unat m div 4096 mod 4 \<in> {0, 1, 2, 3}" by auto
  then show ?thesis
    by (auto simp: promotion_type_unat KNIGHT_def BISHOP_def ROOK_def)
qed

text \<open>
  C8. \<open>UCI::move(m, chess960)\<close> returns \<open>(none)\<close> for the none sentinel and \<open>0000\<close> for
  the null move. For a castling move in standard mode the destination printed is file g
  when the rook's square is beyond the king's (short castling) and file c otherwise, on
  the king's rank; in Chess960 mode it is the rook's square, the encoded destination.
  For a promotion the letter of the promotion piece follows the two squares.
\<close>

theorem uci_move_notation:
  "UCI_move Move_none chess960 = ''(none)''
   \<and> UCI_move Move_null chess960 = ''0000''
   \<and> (type_of m = CASTLING \<longrightarrow>
        UCI_move m False = UCI_square (from_sq m)
           @ [if to_sq m > from_sq m then CHR ''g'' else CHR ''c'',
              char_of (49 + rank_of (from_sq m))])
   \<and> (type_of m = CASTLING \<longrightarrow>
        UCI_move m True = UCI_square (from_sq m) @ UCI_square (to_sq m))
   \<and> (type_of m = PROMOTION \<longrightarrow>
        UCI_move m chess960 = UCI_square (from_sq m) @ UCI_square (to_sq m)
           @ [if promotion_type m = KNIGHT then CHR ''n''
              else if promotion_type m = BISHOP then CHR ''b''
              else if promotion_type m = ROOK then CHR ''r'' else CHR ''q''])"
proof -
  have n: "Move_none \<noteq> Move_null" by (simp add: Move_none_def Move_null_def)
  have 1: "UCI_move Move_none chess960 = ''(none)''" by (simp add: UCI_move_def)
  have 2: "UCI_move Move_null chess960 = ''0000''" using n by (simp add: UCI_move_def)
  have ok: "m \<noteq> Move_none \<and> m \<noteq> Move_null" if "type_of m \<noteq> NORMAL"
    using that type_of_sentinels by auto
  have 3: "UCI_move m False = UCI_square (from_sq m)
           @ [if to_sq m > from_sq m then CHR ''g'' else CHR ''c'',
              char_of (49 + rank_of (from_sq m))]" if c: "type_of m = CASTLING"
    using ok c move_types_distinct
    by (simp add: UCI_move_def Let_def UCI_square_make_square FILE_G_def FILE_C_def chars_gc)
  have 4: "UCI_move m True = UCI_square (from_sq m) @ UCI_square (to_sq m)"
    if c: "type_of m = CASTLING"
    using ok c move_types_distinct by (simp add: UCI_move_def Let_def)
  have 5: "UCI_move m chess960 = UCI_square (from_sq m) @ UCI_square (to_sq m)
           @ [if promotion_type m = KNIGHT then CHR ''n''
              else if promotion_type m = BISHOP then CHR ''b''
              else if promotion_type m = ROOK then CHR ''r'' else CHR ''q'']"
    if c: "type_of m = PROMOTION"
    using ok c move_types_distinct
    by (simp add: UCI_move_def Let_def promotion_letter del: nth_Cons_numeral)
  from 1 2 3 4 5 show ?thesis by blast
qed


theorem uci_move_notation_witness:
  "type_of (make_move CASTLING 4 7 KNIGHT) = CASTLING
   \<and> UCI_move (make_move CASTLING 4 7 KNIGHT) False = ''e1g1''
   \<and> UCI_move (make_move CASTLING 4 7 KNIGHT) True = ''e1h1''
   \<and> type_of (make_move PROMOTION 48 56 QUEEN) = PROMOTION
   \<and> UCI_move (make_move PROMOTION 48 56 QUEEN) False = ''a7a8q''"
proof -
  let ?c = "make_move CASTLING 4 7 KNIGHT"
  let ?p = "make_move PROMOTION 48 56 QUEEN"
  have tc: "type_of ?c = CASTLING" by (simp add: castling_type)
  have tp: "type_of ?p = PROMOTION" by code_simp
  have r1: "UCI_square (from_sq ?c)
           @ [if to_sq ?c > from_sq ?c then CHR ''g'' else CHR ''c'',
              char_of (49 + rank_of (from_sq ?c))] = ''e1g1''" by code_simp
  have r2: "UCI_square (from_sq ?c) @ UCI_square (to_sq ?c) = ''e1h1''" by code_simp
  have r3: "UCI_square (from_sq ?p) @ UCI_square (to_sq ?p)
           @ [if promotion_type ?p = KNIGHT then CHR ''n''
              else if promotion_type ?p = BISHOP then CHR ''b''
              else if promotion_type ?p = ROOK then CHR ''r'' else CHR ''q''] = ''a7a8q''"
    by code_simp
  from uci_move_notation [of False ?c] uci_move_notation [of False ?p] tc tp r1 r2 r3
  show ?thesis by simp
qed

text \<open>
  C10 (as amended). No move whose type is \<open>CASTLING\<close> is a capture, whatever stands on
  its destination square, and \<open>capture_stage\<close> of such a move is true exactly when its
  promotion field reads queen. For every castling move as
  \<open>Move::make<CASTLING>(from, to)\<close> builds it (the promotion field at its default),
  \<open>capture\<close> and \<open>capture_stage\<close> both return false, also when the destination square
  holds the moving side's own rook. For every move, \<open>capture_stage\<close> is true exactly
  when \<open>capture\<close> is true or the promotion piece is a queen.
\<close>

theorem castling_is_no_capture:
  "(type_of m = CASTLING \<longrightarrow>
        \<not> capture pos m \<and> (capture_stage pos m \<longleftrightarrow> promotion_type m = QUEEN))
   \<and> (from < 64 \<and> to < 64 \<longrightarrow>
        type_of (make_move CASTLING from to KNIGHT) = CASTLING
        \<and> to_sq (make_move CASTLING from to KNIGHT) = to
        \<and> \<not> capture pos (make_move CASTLING from to KNIGHT)
        \<and> \<not> capture_stage pos (make_move CASTLING from to KNIGHT))
   \<and> (capture_stage pos m \<longleftrightarrow> capture pos m \<or> promotion_type m = QUEEN)"
proof -
  have ce: "CASTLING \<noteq> EN_PASSANT" by (simp add: CASTLING_def EN_PASSANT_def)
  have kq: "KNIGHT \<noteq> QUEEN" by (simp add: KNIGHT_def QUEEN_def)
  have 1: "\<not> capture pos m \<and> (capture_stage pos m \<longleftrightarrow> promotion_type m = QUEEN)"
    if "type_of m = CASTLING"
    using that ce by (simp add: capture_def capture_stage_def)
  have 2: "type_of (make_move CASTLING from to KNIGHT) = CASTLING
        \<and> to_sq (make_move CASTLING from to KNIGHT) = to
        \<and> \<not> capture pos (make_move CASTLING from to KNIGHT)
        \<and> \<not> capture_stage pos (make_move CASTLING from to KNIGHT)"
    if "from < 64" "to < 64"
    using castling_type [OF that] ce kq by (simp add: capture_def capture_stage_def)
  have 3: "capture_stage pos m \<longleftrightarrow> capture pos m \<or> promotion_type m = QUEEN"
    by (simp add: capture_stage_def)
  from 1 2 3 show ?thesis by blast
qed

theorem castling_is_no_capture_witness:
  "\<not> empty_sq (put_piece (\<lambda>pc s. 0) 4 7 (put_piece (\<lambda>pc s. 0) 6 4 empty_pos))
        (to_sq (make_move CASTLING 4 7 KNIGHT))
   \<and> \<not> capture (put_piece (\<lambda>pc s. 0) 4 7 (put_piece (\<lambda>pc s. 0) 6 4 empty_pos))
        (make_move CASTLING 4 7 KNIGHT)
   \<and> \<not> capture_stage (put_piece (\<lambda>pc s. 0) 4 7 (put_piece (\<lambda>pc s. 0) 6 4 empty_pos))
        (make_move CASTLING 4 7 KNIGHT)"
proof -
  let ?pos = "put_piece (\<lambda>pc s. 0) 4 7 (put_piece (\<lambda>pc s. 0) 6 4 empty_pos)"
  have e: "\<not> empty_sq ?pos 7"
    by (simp add: empty_sq_def piece_on_def put_piece_def Let_def NO_PIECE_def)
  from castling_is_no_capture [of "make_move CASTLING 4 7 KNIGHT" ?pos 4 7] e
  show ?thesis by simp
qed

text \<open>
  The claim as stated fails for a move of type \<open>CASTLING\<close> whose promotion field reads
  queen: the 16-bit word \<open>0xF107\<close> is neither sentinel, has type \<open>CASTLING\<close>, goes from e1
  to h1, and \<open>capture_stage\<close> returns true for it, here with the white king on e1 and
  the white rook on h1. \<open>search\<close> applies \<open>capture_stage\<close> to the move read from the
  transposition table (\<open>ttCapture\<close>), a 16-bit word that has passed no test of
  pseudo-legality.
\<close>

theorem castling_is_no_capture_counterexample:
  "is_ok 0xF107 \<and> type_of 0xF107 = CASTLING
   \<and> from_sq 0xF107 = 4 \<and> to_sq 0xF107 = 7 \<and> promotion_type 0xF107 = QUEEN
   \<and> \<not> capture (put_piece (\<lambda>pc s. 0) 4 7 (put_piece (\<lambda>pc s. 0) 6 4 empty_pos)) 0xF107
   \<and> capture_stage (put_piece (\<lambda>pc s. 0) 4 7 (put_piece (\<lambda>pc s. 0) 6 4 empty_pos)) 0xF107"
proof -
  have t: "type_of 0xF107 = CASTLING" by code_simp
  have p: "promotion_type 0xF107 = QUEEN" by code_simp
  have f: "from_sq 0xF107 = 4" by code_simp
  have d: "to_sq 0xF107 = 7" by code_simp
  have o: "is_ok 0xF107" by code_simp
  have ce: "CASTLING \<noteq> EN_PASSANT" by (simp add: CASTLING_def EN_PASSANT_def)
  from t p f d o ce show ?thesis by (simp add: capture_def capture_stage_def)
qed
subsection \<open>Piece placement\<close>

lemma bit_square_bb: "bit (square_bb s) n \<longleftrightarrow> n = s \<and> s < 64"
  by (auto simp: square_bb_def bit_simps)

lemma bb_eq_iff: "(a :: Bitboard) = b \<longleftrightarrow> (\<forall>n. bit a n \<longleftrightarrow> bit b n)"
  by (auto intro: bit_eqI)

lemma type_union_bit:
  "bit (f PAWN OR f KNIGHT OR f BISHOP OR f ROOK OR f QUEEN OR f KING) n
     \<longleftrightarrow> (\<exists>t \<in> {PAWN..KING}. bit ((f t) :: Bitboard) n)"
proof -
  have "{PAWN..KING} = {PAWN, KNIGHT, BISHOP, ROOK, QUEEN, KING}"
    by (auto simp: PAWN_def KNIGHT_def BISHOP_def ROOK_def QUEEN_def KING_def)
  then show ?thesis by (simp add: bit_or_iff)
qed

lemma bb_invariant_bits: "bb_invariant pos \<longleftrightarrow> inv_bits (byTypeBB pos) (byColorBB pos)"
proof -
  have 1: "(a = b OR c) \<longleftrightarrow> (\<forall>n. bit a n \<longleftrightarrow> bit b n \<or> bit c n)" for a b c :: Bitboard
    by (simp add: bb_eq_iff bit_or_iff)
  have 2: "(a AND b = 0) \<longleftrightarrow> (\<forall>n. \<not> (bit a n \<and> bit b n))" for a b :: Bitboard
    by (simp add: bb_eq_iff bit_and_iff)
  have 3: "(f PAWN OR f KNIGHT OR f BISHOP OR f ROOK OR f QUEEN OR f KING = a)
      \<longleftrightarrow> (\<forall>n. (\<exists>t \<in> {PAWN..KING}. bit (f t) n) \<longleftrightarrow> bit a n)"
    for f :: "PieceType \<Rightarrow> Bitboard" and a
    by (simp only: bb_eq_iff type_union_bit)
  show ?thesis
    unfolding bb_invariant_def inv_bits_def 1 2 3 ..
qed

lemma inv_bits_D:
  assumes "inv_bits T C"
  shows "bit (T ALL_PIECES) n \<longleftrightarrow> bit (C WHITE) n \<or> bit (C BLACK) n"
    and "t1 \<in> {PAWN..KING} \<Longrightarrow> t2 \<in> {PAWN..KING} \<Longrightarrow> t1 \<noteq> t2
           \<Longrightarrow> \<not> (bit (T t1) n \<and> bit (T t2) n)"
    and "(\<exists>t \<in> {PAWN..KING}. bit (T t) n) \<longleftrightarrow> bit (T ALL_PIECES) n"
  using assms unfolding inv_bits_def by blast+

lemma piece_facts:
  assumes "is_piece pc"
  shows "type_of_piece pc \<in> {PAWN..KING}" and "color_of pc \<in> {WHITE, BLACK}"
    and "pc \<noteq> NO_PIECE" and "type_of_piece pc \<noteq> ALL_PIECES"
    and "1 - color_of pc \<in> {WHITE, BLACK}" and "1 - color_of pc \<noteq> color_of pc"
  using assms
  by (auto simp: is_piece_def type_of_piece_def NO_PIECE_def ALL_PIECES_def PAWN_def
      WHITE_def BLACK_def)

lemma all_not_type: "ALL_PIECES \<notin> {PAWN..KING}"
  by (simp add: ALL_PIECES_def PAWN_def)

lemma board_agrees_D:
  assumes "board_agrees pos" and "s < 64"
  shows "board pos s = NO_PIECE \<Longrightarrow> \<not> bit (byTypeBB pos ALL_PIECES) s"
    and "board pos s \<noteq> NO_PIECE \<Longrightarrow> is_piece (board pos s)"
    and "board pos s \<noteq> NO_PIECE \<Longrightarrow> bit (byTypeBB pos (type_of_piece (board pos s))) s"
    and "board pos s \<noteq> NO_PIECE \<Longrightarrow> bit (byColorBB pos (color_of (board pos s))) s"
    and "board pos s \<noteq> NO_PIECE \<Longrightarrow> \<not> bit (byColorBB pos (1 - color_of (board pos s))) s"
  using assms unfolding board_agrees_def by (auto split: if_splits)

lemma put_piece_ok:
  assumes inv: "bb_invariant pos" and agr: "board_agrees pos"
    and s: "s < 64" and pc: "is_piece pc" and emp: "empty_sq pos s"
  shows "bb_invariant (put_piece psqt pc s pos) \<and> board_agrees (put_piece psqt pc s pos)"
proof -
  define T where "T = byTypeBB pos"
  define C where "C = byColorBB pos"
  define t where "t = type_of_piece pc"
  define c where "c = color_of pc"
  define T' where "T' = (T(t := T t OR square_bb s))(ALL_PIECES := T ALL_PIECES OR (T t OR square_bb s))"
  define C' where "C' = C(c := C c OR square_bb s)"
  note pf = piece_facts [OF pc, folded t_def c_def]
  have Teq: "byTypeBB (put_piece psqt pc s pos) = T'"
    and Ceq: "byColorBB (put_piece psqt pc s pos) = C'"
    and Beq: "board (put_piece psqt pc s pos) = (board pos)(s := pc)"
    using pf(4) by (simp_all add: put_piece_def Let_def T'_def C'_def T_def C_def t_def c_def)
  have I: "inv_bits T C" using inv by (simp add: bb_invariant_bits T_def C_def)
  note i1 = inv_bits_D(1) [OF I] and i2 = inv_bits_D(2) [OF I] and i3 = inv_bits_D(3) [OF I]
  have free: "\<not> bit (T ALL_PIECES) s"
    using board_agrees_D(1) [OF agr s] emp by (simp add: empty_sq_def piece_on_def T_def)
  have fr: "\<not> bit (T u) s" if "u \<in> {PAWN..KING}" for u
    using i3 [of s] free that by blast
  have frc: "\<not> bit (C WHITE) s" "\<not> bit (C BLACK) s"
    using i1 [of s] free by auto
  have wb: "WHITE \<noteq> BLACK" by (simp add: WHITE_def BLACK_def)
  have A: "bit (T' ALL_PIECES) n \<longleftrightarrow> bit (T ALL_PIECES) n \<or> n = s" for n
    using pf(1) i3 [of n] s by (auto simp: T'_def bit_or_iff bit_square_bb)
  have B: "bit (T' u) n \<longleftrightarrow> bit (T u) n \<or> (u = t \<and> n = s)" if "u \<in> {PAWN..KING}" for u n
    using that all_not_type s by (auto simp: T'_def bit_or_iff bit_square_bb)
  have Cc: "bit (C' k) n \<longleftrightarrow> bit (C k) n \<or> (k = c \<and> n = s)" for k n
    using s by (auto simp: C'_def bit_or_iff bit_square_bb)
  have I': "inv_bits T' C'"
    unfolding inv_bits_def
  proof (intro conjI allI ballI impI)
    fix n
    show "bit (T' ALL_PIECES) n \<longleftrightarrow> bit (C' WHITE) n \<or> bit (C' BLACK) n"
      using pf(2) i1 [of n] by (auto simp: A Cc)
  next
    fix t1 t2 n
    assume "t1 \<in> {PAWN..KING}" "t2 \<in> {PAWN..KING}" "t1 \<noteq> t2"
    then show "\<not> (bit (T' t1) n \<and> bit (T' t2) n)"
      using i2 [of t1 t2 n] fr [of t1] fr [of t2] by (auto simp: B)
  next
    fix n
    show "(\<exists>u \<in> {PAWN..KING}. bit (T' u) n) \<longleftrightarrow> bit (T' ALL_PIECES) n"
      using pf(1) i3 [of n] by (auto simp: A B)
  qed
  have agr': "board_agrees (put_piece psqt pc s pos)"
    unfolding board_agrees_def Teq Ceq Beq
  proof (intro allI impI)
    fix q :: nat
    assume q: "q < 64"
    show "if ((board pos)(s := pc)) q = NO_PIECE then \<not> bit (T' ALL_PIECES) q
          else is_piece (((board pos)(s := pc)) q)
             \<and> bit (T' (type_of_piece (((board pos)(s := pc)) q))) q
             \<and> bit (C' (color_of (((board pos)(s := pc)) q))) q
             \<and> \<not> bit (C' (1 - color_of (((board pos)(s := pc)) q))) q"
    proof (cases "q = s")
      case True
      then show ?thesis
        using pc pf frc by (auto simp: A B Cc t_def [symmetric] c_def [symmetric])
    next
      case False
      show ?thesis
      proof (cases "board pos q = NO_PIECE")
        case True
        then show ?thesis
          using False board_agrees_D(1) [OF agr q] by (simp add: A T_def)
      next
        case nz: False
        note d = board_agrees_D(2-5) [OF agr q nz]
        have "type_of_piece (board pos q) \<in> {PAWN..KING}"
          using piece_facts(1) [OF d(1)] .
        then show ?thesis
          using False nz d by (simp add: B Cc T_def C_def)
      qed
    qed
  qed
  from I' agr' show ?thesis by (simp add: bb_invariant_bits Teq Ceq)
qed


lemma remove_piece_ok:
  assumes inv: "bb_invariant pos" and agr: "board_agrees pos"
    and s: "s < 64" and occ: "\<not> empty_sq pos s"
  shows "bb_invariant (remove_piece psqt s pos) \<and> board_agrees (remove_piece psqt s pos)"
proof -
  define pc where "pc = board pos s"
  define T where "T = byTypeBB pos"
  define C where "C = byColorBB pos"
  define t where "t = type_of_piece pc"
  define c where "c = color_of pc"
  define T' where "T' = (T(ALL_PIECES := T ALL_PIECES XOR square_bb s))(t := T t XOR square_bb s)"
  define C' where "C' = C(c := C c XOR square_bb s)"
  have nz: "board pos s \<noteq> NO_PIECE"
    using occ by (simp add: empty_sq_def piece_on_def)
  note d = board_agrees_D(2-5) [OF agr s nz, folded pc_def, folded t_def c_def]
  note pf = piece_facts [OF d(1), folded t_def c_def]
  have Teq: "byTypeBB (remove_piece psqt s pos) = T'"
    and Ceq: "byColorBB (remove_piece psqt s pos) = C'"
    and Beq: "board (remove_piece psqt s pos) = (board pos)(s := NO_PIECE)"
    using pf(4)
    by (simp_all add: remove_piece_def Let_def T'_def C'_def T_def C_def t_def c_def pc_def)
  have I: "inv_bits T C" using inv by (simp add: bb_invariant_bits T_def C_def)
  note i1 = inv_bits_D(1) [OF I] and i2 = inv_bits_D(2) [OF I] and i3 = inv_bits_D(3) [OF I]
  have ts: "bit (T t) s" and cs: "bit (C c) s" and ncs: "\<not> bit (C (1 - c)) s"
    using d by (simp_all add: T_def C_def)
  have alls: "bit (T ALL_PIECES) s" using i3 [of s] ts pf(1) by blast
  have others: "\<not> bit (T u) s" if "u \<in> {PAWN..KING}" "u \<noteq> t" for u
    using i2 [of u t s] that pf(1) ts by blast
  have cols: "k = c \<or> k = 1 - c" if "k \<in> {WHITE, BLACK}" for k
    using that pf(2) by (auto simp: WHITE_def BLACK_def)
  have A: "bit (T' ALL_PIECES) n \<longleftrightarrow> bit (T ALL_PIECES) n \<and> n \<noteq> s" for n
    using pf(4) alls s by (auto simp: T'_def bit_xor_iff bit_square_bb)
  have B: "bit (T' u) n \<longleftrightarrow> bit (T u) n \<and> n \<noteq> s" if "u \<in> {PAWN..KING}" for u n
    using that all_not_type s ts others [of u]
    by (auto simp: T'_def bit_xor_iff bit_square_bb)
  have Cc: "bit (C' k) n \<longleftrightarrow> bit (C k) n \<and> n \<noteq> s" if "k \<in> {WHITE, BLACK}" for k n
    using s cs ncs cols [OF that] by (auto simp: C'_def bit_xor_iff bit_square_bb)
  have I': "inv_bits T' C'"
    unfolding inv_bits_def
  proof (intro conjI allI ballI impI)
    fix n
    show "bit (T' ALL_PIECES) n \<longleftrightarrow> bit (C' WHITE) n \<or> bit (C' BLACK) n"
      using i1 [of n] by (auto simp: A Cc)
  next
    fix t1 t2 n
    assume "t1 \<in> {PAWN..KING}" "t2 \<in> {PAWN..KING}" "t1 \<noteq> t2"
    then show "\<not> (bit (T' t1) n \<and> bit (T' t2) n)"
      using i2 [of t1 t2 n] by (auto simp: B)
  next
    fix n
    show "(\<exists>u \<in> {PAWN..KING}. bit (T' u) n) \<longleftrightarrow> bit (T' ALL_PIECES) n"
      using i3 [of n] by (auto simp: A B)
  qed
  have agr': "board_agrees (remove_piece psqt s pos)"
    unfolding board_agrees_def Teq Ceq Beq
  proof (intro allI impI)
    fix q :: nat
    assume q: "q < 64"
    show "if ((board pos)(s := NO_PIECE)) q = NO_PIECE then \<not> bit (T' ALL_PIECES) q
          else is_piece (((board pos)(s := NO_PIECE)) q)
             \<and> bit (T' (type_of_piece (((board pos)(s := NO_PIECE)) q))) q
             \<and> bit (C' (color_of (((board pos)(s := NO_PIECE)) q))) q
             \<and> \<not> bit (C' (1 - color_of (((board pos)(s := NO_PIECE)) q))) q"
    proof (cases "q = s")
      case True
      then show ?thesis by (simp add: A)
    next
      case False
      show ?thesis
      proof (cases "board pos q = NO_PIECE")
        case True
        then show ?thesis
          using False board_agrees_D(1) [OF agr q] by (simp add: A T_def)
      next
        case nzq: False
        note dq = board_agrees_D(2-5) [OF agr q nzq]
        note pq = piece_facts [OF dq(1)]
        show ?thesis
          using False nzq dq pq(1,2,5) by (simp add: B Cc T_def C_def)
      qed
    qed
  qed
  from I' agr' show ?thesis by (simp add: bb_invariant_bits Teq Ceq)
qed

lemma move_piece_ok:
  assumes inv: "bb_invariant pos" and agr: "board_agrees pos"
    and f: "from < 64" and s: "to < 64"
    and occ: "\<not> empty_sq pos from" and emp: "empty_sq pos to"
  shows "bb_invariant (move_piece psqt from to pos)
       \<and> board_agrees (move_piece psqt from to pos)"
proof -
  define pc where "pc = board pos from"
  define T where "T = byTypeBB pos"
  define C where "C = byColorBB pos"
  define t where "t = type_of_piece pc"
  define c where "c = color_of pc"
  define ft where "ft = square_bb from OR square_bb to"
  define T' where "T' = (T(ALL_PIECES := T ALL_PIECES XOR ft))(t := T t XOR ft)"
  define C' where "C' = C(c := C c XOR ft)"
  have nz: "board pos from \<noteq> NO_PIECE"
    using occ by (simp add: empty_sq_def piece_on_def)
  have ez: "board pos to = NO_PIECE"
    using emp by (simp add: empty_sq_def piece_on_def)
  have ne: "from \<noteq> to" using nz ez by auto
  note d = board_agrees_D(2-5) [OF agr f nz, folded pc_def, folded t_def c_def]
  note pf = piece_facts [OF d(1), folded t_def c_def]
  have Teq: "byTypeBB (move_piece psqt from to pos) = T'"
    and Ceq: "byColorBB (move_piece psqt from to pos) = C'"
    and Beq: "board (move_piece psqt from to pos) = (board pos)(from := NO_PIECE, to := pc)"
    using pf(4)
    by (simp_all add: move_piece_def Let_def T'_def C'_def T_def C_def t_def c_def pc_def
        ft_def)
  have I: "inv_bits T C" using inv by (simp add: bb_invariant_bits T_def C_def)
  note i1 = inv_bits_D(1) [OF I] and i2 = inv_bits_D(2) [OF I] and i3 = inv_bits_D(3) [OF I]
  have ts: "bit (T t) from" and cs: "bit (C c) from" and ncs: "\<not> bit (C (1 - c)) from"
    using d by (simp_all add: T_def C_def)
  have alls: "bit (T ALL_PIECES) from" using i3 [of "from"] ts pf(1) by blast
  have others: "\<not> bit (T u) from" if "u \<in> {PAWN..KING}" "u \<noteq> t" for u
    using i2 [of u t "from"] that pf(1) ts by blast
  have free: "\<not> bit (T ALL_PIECES) to"
    using board_agrees_D(1) [OF agr s ez] by (simp add: T_def)
  have fr: "\<not> bit (T u) to" if "u \<in> {PAWN..KING}" for u
    using i3 [of to] free that by blast
  have frc: "\<not> bit (C WHITE) to" "\<not> bit (C BLACK) to"
    using i1 [of to] free by auto
  have cols: "k = c \<or> k = 1 - c" if "k \<in> {WHITE, BLACK}" for k
    using that pf(2) by (auto simp: WHITE_def BLACK_def)
  have bft: "bit ft n \<longleftrightarrow> n = from \<or> n = to" for n
    using f s by (auto simp: ft_def bit_or_iff bit_square_bb)
  have A: "bit (T' ALL_PIECES) n \<longleftrightarrow> (bit (T ALL_PIECES) n \<and> n \<noteq> from) \<or> n = to" for n
    using pf(4) alls free by (auto simp: T'_def bit_xor_iff bft)
  have B: "bit (T' u) n \<longleftrightarrow> (bit (T u) n \<and> n \<noteq> from) \<or> (u = t \<and> n = to)"
    if "u \<in> {PAWN..KING}" for u n
    using that all_not_type ts others [of u] fr [of u]
    by (auto simp: T'_def bit_xor_iff bft)
  have Cc: "bit (C' k) n \<longleftrightarrow> (bit (C k) n \<and> n \<noteq> from) \<or> (k = c \<and> n = to)"
    if "k \<in> {WHITE, BLACK}" for k n
    using cs ncs cols [OF that] frc that by (auto simp: C'_def bit_xor_iff bft)
  have I': "inv_bits T' C'"
    unfolding inv_bits_def
  proof (intro conjI allI ballI impI)
    fix n
    show "bit (T' ALL_PIECES) n \<longleftrightarrow> bit (C' WHITE) n \<or> bit (C' BLACK) n"
      using i1 [of n] pf(2) by (auto simp: A Cc)
  next
    fix t1 t2 n
    assume "t1 \<in> {PAWN..KING}" "t2 \<in> {PAWN..KING}" "t1 \<noteq> t2"
    then show "\<not> (bit (T' t1) n \<and> bit (T' t2) n)"
      using i2 [of t1 t2 n] fr [of t1] fr [of t2] by (auto simp: B)
  next
    fix n
    show "(\<exists>u \<in> {PAWN..KING}. bit (T' u) n) \<longleftrightarrow> bit (T' ALL_PIECES) n"
      using i3 [of n] pf(1) by (auto simp: A B)
  qed
  have agr': "board_agrees (move_piece psqt from to pos)"
    unfolding board_agrees_def Teq Ceq Beq
  proof (intro allI impI)
    fix q :: nat
    assume q: "q < 64"
    let ?b = "(board pos)(from := NO_PIECE, to := pc)"
    show "if ?b q = NO_PIECE then \<not> bit (T' ALL_PIECES) q
          else is_piece (?b q)
             \<and> bit (T' (type_of_piece (?b q))) q
             \<and> bit (C' (color_of (?b q))) q
             \<and> \<not> bit (C' (1 - color_of (?b q))) q"
    proof (cases "q = to")
      case True
      then show ?thesis
        using d(1) pf frc ne
        by (auto simp: A B Cc t_def [symmetric] c_def [symmetric])
    next
      case nto: False
      show ?thesis
      proof (cases "q = from")
        case True
        then show ?thesis using ne by (simp add: A)
      next
        case False
        show ?thesis
        proof (cases "board pos q = NO_PIECE")
          case True
          then show ?thesis
            using False nto board_agrees_D(1) [OF agr q] by (simp add: A T_def)
        next
          case nzq: False
          note dq = board_agrees_D(2-5) [OF agr q nzq]
          note pq = piece_facts [OF dq(1)]
          show ?thesis
            using False nto nzq dq pq(1,2,5) by (simp add: B Cc T_def C_def)
        qed
      qed
    qed
  qed
  from I' agr' show ?thesis by (simp add: bb_invariant_bits Teq Ceq)
qed


text \<open>
  C6. On a position whose board array agrees with its bitboards, the invariant
  \<open>byTypeBB[ALL_PIECES] == byColorBB[WHITE] | byColorBB[BLACK]\<close>, with the bitboards of
  the piece types pairwise disjoint and their union equal to \<open>byTypeBB[ALL_PIECES]\<close>,
  is preserved by \<open>put_piece(pc, s)\<close> onto an empty square, by \<open>remove_piece(s)\<close> of an
  occupied square and by \<open>move_piece(from, to)\<close> from an occupied square to an empty
  one; the agreement of the board array with the bitboards is preserved with it, so the
  invariant holds after any sequence of such calls from the cleared position.
\<close>

theorem piece_ops_preserve_invariant:
  assumes "bb_invariant pos" and "board_agrees pos"
  shows "(s < 64 \<and> is_piece pc \<and> empty_sq pos s \<longrightarrow>
            bb_invariant (put_piece psqt pc s pos) \<and> board_agrees (put_piece psqt pc s pos))
       \<and> (s < 64 \<and> \<not> empty_sq pos s \<longrightarrow>
            bb_invariant (remove_piece psqt s pos) \<and> board_agrees (remove_piece psqt s pos))
       \<and> (from < 64 \<and> to < 64 \<and> \<not> empty_sq pos from \<and> empty_sq pos to \<longrightarrow>
            bb_invariant (move_piece psqt from to pos)
            \<and> board_agrees (move_piece psqt from to pos))"
  using put_piece_ok [OF assms, of s pc psqt] remove_piece_ok [OF assms, of s psqt]
    move_piece_ok [OF assms, of "from" to psqt]
  by blast

lemma empty_pos_ok: "bb_invariant empty_pos" "board_agrees empty_pos"
  by (simp_all add: bb_invariant_def board_agrees_def empty_pos_def)

theorem piece_ops_preserve_invariant_witness:
  "bb_invariant (put_piece (\<lambda>pc s. 0) 6 4 empty_pos)
   \<and> board_agrees (put_piece (\<lambda>pc s. 0) 6 4 empty_pos)
   \<and> bb_invariant (move_piece (\<lambda>pc s. 0) 4 5 (put_piece (\<lambda>pc s. 0) 6 4 empty_pos))
   \<and> bb_invariant (remove_piece (\<lambda>pc s. 0) 4 (put_piece (\<lambda>pc s. 0) 6 4 empty_pos))"
proof -
  have p: "is_piece 6"
    by (simp add: is_piece_def type_of_piece_def color_of_def PAWN_def KING_def WHITE_def)
  have e: "empty_sq empty_pos 4"
    by (simp add: empty_sq_def piece_on_def empty_pos_def)
  have a: "bb_invariant (put_piece (\<lambda>pc s. 0) 6 4 empty_pos)
      \<and> board_agrees (put_piece (\<lambda>pc s. 0) 6 4 empty_pos)"
    using piece_ops_preserve_invariant [OF empty_pos_ok, of 4 6 "\<lambda>pc s. 0"] p e by simp
  have o: "\<not> empty_sq (put_piece (\<lambda>pc s. 0) 6 4 empty_pos) 4"
    "empty_sq (put_piece (\<lambda>pc s. 0) 6 4 empty_pos) 5"
    by (simp_all add: empty_sq_def piece_on_def put_piece_def Let_def empty_pos_def NO_PIECE_def)
  from a have a1: "bb_invariant (put_piece (\<lambda>pc s. 0) 6 4 empty_pos)"
    and a2: "board_agrees (put_piece (\<lambda>pc s. 0) 6 4 empty_pos)" by simp_all
  show ?thesis
    using a o piece_ops_preserve_invariant [OF a1 a2, of 4 6 "\<lambda>pc s. 0" 4 5]
    by simp
qed

subsection \<open>Continuation histories\<close>




lemma update_entry_same: "update_entry upd p pc to b h p pc to = upd (h p pc to) b"
  by (simp add: update_entry_def)











subsection \<open>Quiescence search\<close>

lemma cdiv_4_ge:
  assumes "b \<le> v"
  shows "b \<le> cdiv (3 * v + b) 4"
proof (cases "0 \<le> 3 * v + b")
  case True
  then have "cdiv (3 * v + b) 4 = (3 * v + b) div 4" by (simp add: cdiv_nonneg)
  with assms show ?thesis by simp
next
  case False
  then have n: "3 * v + b < 0" by simp
  then have "cdiv (3 * v + b) 4 = - ((- (3 * v + b)) div 4)"
    by (simp add: cdiv_def sgn_if)
  with assms n show ?thesis by simp
qed

lemma qs_prune_Skip:
  assumes "qs_prune vc nd fb m alpha bestValue mc qce = Skip bv" and "bestValue \<le> alpha"
  shows "bestValue \<le> bv \<and> bv \<le> alpha"
  using assms
  by (auto simp: qs_prune_def qs_futility_def Let_def split: if_splits option.splits)

lemma qs_loop_ge:
  "bestValue \<le> alpha \<Longrightarrow> bestValue \<le> qs_loop vc nd fb ms alpha bestValue mc qce"
proof (induction ms arbitrary: alpha bestValue mc qce)
  case Nil
  then show ?case by simp
next
  case (Cons m ms)
  show ?case
  proof (cases "qm_legal m")
    case False
    then show ?thesis using Cons by simp
  next
    case True
    show ?thesis
    proof (cases "qs_prune vc nd fb m alpha bestValue (mc + 1) qce")
      case (Skip bv)
      from qs_prune_Skip [OF Skip Cons.prems] have b: "bestValue \<le> bv" "bv \<le> alpha" by simp_all
      from Cons.IH [OF b(2), of "mc + 1" qce] b(1) True Skip show ?thesis by simp
    next
      case Leave
      then show ?thesis using True by simp
    next
      case Search
      define q where "q = qce + (if \<not> qm_capture m \<and> qs_inCheck nd then 1 else 0)"
      define v where "v = qm_child_value m alpha (qs_beta nd)"
      have eq: "qs_loop vc nd fb (m # ms) alpha bestValue mc qce =
          (if v > bestValue then
             (if v > alpha then
                (if v \<ge> qs_beta nd then v else qs_loop vc nd fb ms v v (mc + 1) q)
              else qs_loop vc nd fb ms alpha v (mc + 1) q)
           else qs_loop vc nd fb ms alpha bestValue (mc + 1) q)"
        using True Search by (simp add: Let_def q_def v_def)
      have 1: "v \<le> qs_loop vc nd fb ms v v (mc + 1) q"
        by (rule Cons.IH) simp
      have 2: "v \<le> alpha \<Longrightarrow> v \<le> qs_loop vc nd fb ms alpha v (mc + 1) q"
        by (rule Cons.IH)
      have 3: "bestValue \<le> qs_loop vc nd fb ms alpha bestValue (mc + 1) q"
        by (rule Cons.IH) (rule Cons.prems)
      from 1 2 3 show ?thesis
        unfolding eq by (auto simp: not_less)
    qed
  qed
qed


lemma classic_qs_prune_Skip:
  assumes "classic_qs_prune vc nd fb m alpha bestValue mc qce = Skip bv"
  shows "bestValue \<le> bv"
  using assms
  by (auto simp: classic_qs_prune_def Let_def split: if_splits option.splits)

lemma classic_qs_loop_ge:
  "bestValue \<le> classic_qs_loop vc nd fb ms alpha bestValue mc qce"
proof (induction ms arbitrary: alpha bestValue mc qce)
  case Nil
  then show ?case by simp
next
  case (Cons m ms)
  show ?case
  proof (cases "qm_legal m")
    case False
    then show ?thesis using Cons by simp
  next
    case True
    show ?thesis
    proof (cases "classic_qs_prune vc nd fb m alpha bestValue (mc + 1) qce")
      case (Skip bv)
      from classic_qs_prune_Skip [OF Skip] have b: "bestValue \<le> bv" .
      from Cons [of bv alpha "mc + 1" qce] b True Skip show ?thesis by simp
    next
      case Leave
      then show ?thesis using True by simp
    next
      case Search
      define q where "q = qce + (if \<not> qm_capture m \<and> qs_inCheck nd then 1 else 0)"
      define v where "v = qm_child_value m alpha (qs_beta nd)"
      have eq: "classic_qs_loop vc nd fb (m # ms) alpha bestValue mc qce =
          (if v > bestValue then
             (if v > alpha then
                (if qs_PvNode nd \<and> v < qs_beta nd
                 then classic_qs_loop vc nd fb ms v v (mc + 1) q else v)
              else classic_qs_loop vc nd fb ms alpha v (mc + 1) q)
           else classic_qs_loop vc nd fb ms alpha bestValue (mc + 1) q)"
        using True Search by (simp add: Let_def q_def v_def)
      have 1: "v \<le> classic_qs_loop vc nd fb ms v v (mc + 1) q"
        by (rule Cons)
      have 2: "v \<le> classic_qs_loop vc nd fb ms alpha v (mc + 1) q"
        by (rule Cons)
      have 3: "bestValue \<le> classic_qs_loop vc nd fb ms alpha bestValue (mc + 1) q"
        by (rule Cons)
      from 1 2 3 show ?thesis
        unfolding eq by (auto simp: not_less)
    qed
  qed
qed

text \<open>
  C5 (as amended). In \<open>qsearch\<close>, when the side to move is not in check, the node stands
  pat on the (corrected and clamped) static evaluation, or on the transposition-table
  value where its bound allows; when this value is at least beta it is returned
  unchanged; otherwise every value returned is at least this value. In search.cpp a
  loop that ends with \<open>bestValue \<ge> beta\<close> and \<open>|bestValue|\<close> below the tablebase-win range
  returns \<open>(3 * bestValue + beta) / 4\<close>; the classic \<open>qsearch\<close> returns \<open>bestValue\<close> itself.
\<close>

theorem qsearch_stand_pat:
  assumes "\<not> qs_inCheck nd"
  shows "qs_stand_pat vc nd \<le> qsearch_from_step4 vc nd moves alpha
       \<and> (qs_stand_pat vc nd \<ge> qs_beta nd \<longrightarrow>
            qsearch_from_step4 vc nd moves alpha = qs_stand_pat vc nd)
       \<and> (qs_stand_pat vc nd < qs_beta nd \<longrightarrow>
            (let bestValue = qs_loop vc nd (qs_staticEval vc nd + 182) moves
                               (max alpha (qs_stand_pat vc nd)) (qs_stand_pat vc nd) 0 0
             in qsearch_from_step4 vc nd moves alpha =
                  (if \<bar>bestValue\<bar> < VALUE_TB_WIN_IN_MAX_PLY vc \<and> bestValue \<ge> qs_beta nd
                   then cdiv (3 * bestValue + qs_beta nd) 4 else bestValue)))
       \<and> classic_qs_stand_pat vc nd \<le> classic_qsearch_from_step4 vc nd moves alpha
       \<and> (classic_qs_stand_pat vc nd \<ge> qs_beta nd \<longrightarrow>
            classic_qsearch_from_step4 vc nd moves alpha = classic_qs_stand_pat vc nd)
       \<and> (classic_qs_stand_pat vc nd < qs_beta nd \<longrightarrow>
            classic_qsearch_from_step4 vc nd moves alpha =
              classic_qs_loop vc nd (classic_qs_stand_pat vc nd + 153) moves
                (if qs_PvNode nd \<and> classic_qs_stand_pat vc nd > alpha
                 then classic_qs_stand_pat vc nd else alpha)
                (classic_qs_stand_pat vc nd) 0 0)"
proof -
  define sp where "sp = qs_stand_pat vc nd"
  define a where "a = (if sp > alpha then sp else alpha)"
  define bv where "bv = qs_loop vc nd (qs_staticEval vc nd + 182) moves a sp 0 0"
  have am: "a = max alpha sp" by (simp add: a_def max_def)
  have ge: "sp \<le> bv"
    unfolding bv_def by (rule qs_loop_ge) (simp add: a_def)
  have fin: "qs_finish vc nd bv =
      (if \<bar>bv\<bar> < VALUE_TB_WIN_IN_MAX_PLY vc \<and> bv \<ge> qs_beta nd
       then cdiv (3 * bv + qs_beta nd) 4 else bv)"
    using assms by (simp add: qs_finish_def)
  have r: "qsearch_from_step4 vc nd moves alpha = (if sp \<ge> qs_beta nd then sp else qs_finish vc nd bv)"
    using assms by (simp add: qsearch_from_step4_def Let_def sp_def bv_def a_def)
  have 1: "sp \<le> qsearch_from_step4 vc nd moves alpha"
  proof (cases "sp \<ge> qs_beta nd")
    case True
    then show ?thesis by (simp add: r)
  next
    case False
    show ?thesis
    proof (cases "\<bar>bv\<bar> < VALUE_TB_WIN_IN_MAX_PLY vc \<and> bv \<ge> qs_beta nd")
      case True
      then have "qs_beta nd \<le> cdiv (3 * bv + qs_beta nd) 4" by (simp add: cdiv_4_ge)
      with False True show ?thesis by (auto simp: r fin)
    next
      case f: False
      with False ge show ?thesis by (auto simp: r fin)
    qed
  qed
  have 2: "qsearch_from_step4 vc nd moves alpha = sp" if "sp \<ge> qs_beta nd"
    using that by (simp add: r)
  have 3: "qsearch_from_step4 vc nd moves alpha =
      (if \<bar>bv\<bar> < VALUE_TB_WIN_IN_MAX_PLY vc \<and> bv \<ge> qs_beta nd
       then cdiv (3 * bv + qs_beta nd) 4 else bv)" if "sp < qs_beta nd"
    using that by (simp add: r fin)
  define cs where "cs = classic_qs_stand_pat vc nd"
  define cb where "cb = classic_qs_loop vc nd (cs + 153) moves
      (if qs_PvNode nd \<and> cs > alpha then cs else alpha) cs 0 0"
  have cge: "cs \<le> cb" unfolding cb_def by (rule classic_qs_loop_ge)
  have cr: "classic_qsearch_from_step4 vc nd moves alpha = (if cs \<ge> qs_beta nd then cs else cb)"
    using assms
    by (simp add: classic_qsearch_from_step4_def classic_qs_finish_def Let_def cs_def cb_def)
  have 4: "cs \<le> classic_qsearch_from_step4 vc nd moves alpha"
    using cge by (simp add: cr)
  have 5: "classic_qsearch_from_step4 vc nd moves alpha = cs" if "cs \<ge> qs_beta nd"
    using that by (simp add: cr)
  have 6: "classic_qsearch_from_step4 vc nd moves alpha = cb" if "cs < qs_beta nd"
    using that by (simp add: cr)
  from 1 2 3 4 5 6 show ?thesis
    unfolding sp_def [symmetric] cs_def [symmetric] Let_def am [symmetric]
      bv_def [symmetric] cb_def [symmetric]
    by blast
qed


theorem qsearch_stand_pat_witness:
  "\<not> qs_inCheck (quiet_node 0 50)
   \<and> qs_stand_pat sf_consts (quiet_node 0 50) = 0
   \<and> qsearch_from_step4 sf_consts (quiet_node 0 50) [checking_capture 100] 49 = 87
   \<and> classic_qsearch_from_step4 sf_consts (quiet_node 0 50) [checking_capture 100] 49 = 100"
  using qsearch_stand_pat [of "quiet_node 0 50" sf_consts "[checking_capture 100]" 49]
  by (simp add: quiet_node_def checking_capture_def sf_consts_def qsearch_from_step4_def
      qs_stand_pat_def qs_staticEval_def to_static_eval_def qs_finish_def qs_prune_def
      qs_futility_def classic_qsearch_from_step4_def classic_qs_stand_pat_def
      classic_qs_prune_def classic_qs_finish_def cdiv_def Let_def)

text \<open>
  The claim as stated fails twice. In search.cpp a node that stands pat on 100 with
  \<open>beta = 50\<close> returns 100, not \<open>(3 * 100 + 50) / 4 = 87\<close>. In the classic \<open>qsearch\<close> a
  move that fails high with 100 makes the node return 100, not 87.
\<close>

theorem qsearch_stand_pat_counterexample:
  "\<not> qs_inCheck (quiet_node 100 50)
   \<and> qs_stand_pat sf_consts (quiet_node 100 50) = 100
   \<and> qs_beta (quiet_node 100 50) \<le> 100
   \<and> \<bar>100\<bar> < VALUE_TB_WIN_IN_MAX_PLY sf_consts
   \<and> cdiv (3 * 100 + qs_beta (quiet_node 100 50)) 4 = 87
   \<and> qsearch_from_step4 sf_consts (quiet_node 100 50) [] 49 = 100
   \<and> classic_qsearch_from_step4 sf_consts (quiet_node 0 50) [checking_capture 100] 49 = 100"
  by (simp add: quiet_node_def checking_capture_def sf_consts_def qsearch_from_step4_def
      qs_stand_pat_def qs_staticEval_def to_static_eval_def qs_finish_def
      classic_qsearch_from_step4_def classic_qs_stand_pat_def
      classic_qs_prune_def classic_qs_finish_def cdiv_def Let_def)

subsection \<open>A node without a searched move\<close>

lemma tb_step_maxValue:
  assumes "tb_step vc variant nodeType excludedMove conditions probe UseRule50 ply beta vars
             = Goes_on vars'"
  shows "nv_maxValue vars' = nv_maxValue vars
       \<or> (tb_reports_loss UseRule50 probe \<and> nodeType \<noteq> NonPV \<and> conditions
          \<and> (variant = Classic False \<or> excludedMove = Move_none)
          \<and> nv_alpha vars' = nv_alpha vars \<and> nv_alpha vars < nv_maxValue vars'
          \<and> nv_maxValue vars' =
               (case variant of Modern s c \<Rightarrow> - (VALUE_TB vc - ply)
                | Classic sm \<Rightarrow> VALUE_MATED_IN_MAX_PLY vc + ply + 1))"
  using assms
  by (auto simp: tb_step_def tb_reports_loss_def Let_def
      split: if_splits option.splits search_variant.splits)

text \<open>
  C2. In \<open>search\<close> (search.cpp and both classic variants), when the tablebase step does
  not return and the move loop ends with \<open>moveCount = 0\<close>, the value returned is the
  node's alpha if an excluded move is set (the alpha passed in, except in the classic
  search, where Step 5 may have raised it), \<open>mated_in(ss->ply)\<close> if the side to move is
  in check, and \<open>VALUE_DRAW\<close> otherwise. Between Step 5 and Step 21 alpha is assigned
  only after a move has been searched and \<open>maxValue\<close> not at all, so Step 21 sees the
  variables as Step 5 leaves them. In a PV node the value is capped by \<open>maxValue\<close>,
  which Step 5 lowers only on a tablebase loss; the cap leaves alpha and
  \<open>mated_in(ss->ply)\<close> as they are, and \<open>VALUE_DRAW\<close> as well unless the tablebase
  reports a loss for a position in which the side to move is stalemated.
\<close>

theorem search_no_move_value:
  assumes step: "tb_step vc variant nodeType excludedMove conditions probe UseRule50 ply beta
             \<lparr> nv_alpha = alpha, nv_bestValue = - VALUE_INFINITE vc,
               nv_maxValue = VALUE_INFINITE vc \<rparr> = Goes_on vars"
    and window: "alpha \<le> VALUE_INFINITE vc"
    and rel: "VALUE_DRAW vc \<le> VALUE_INFINITE vc" "VALUE_TB vc \<le> VALUE_MATE vc"
      "- VALUE_MATE vc \<le> VALUE_MATED_IN_MAX_PLY vc" "VALUE_MATE vc \<le> VALUE_INFINITE vc"
      "VALUE_MATE_IN_MAX_PLY vc \<le> VALUE_MATE vc" "MAX_PLY vc \<le> VALUE_MATE vc"
    and pl: "0 \<le> ply" "ply < MAX_PLY vc"
    and sound: "nodeType \<noteq> NonPV \<and> conditions \<and> \<not> inCheck \<and> excludedMove = Move_none
                  \<longrightarrow> \<not> tb_reports_loss UseRule50 probe"
  shows "search_end vc variant nodeType 0 excludedMove inCheck ply vars =
           (if excludedMove \<noteq> Move_none then nv_alpha vars
            else if inCheck then mated_in vc ply
            else VALUE_DRAW vc)
       \<and> (excludedMove \<noteq> Move_none \<and> variant \<noteq> Classic False \<longrightarrow> nv_alpha vars = alpha)"
proof -
  define v where "v = (if excludedMove \<noteq> Move_none then nv_alpha vars
            else if inCheck then mated_in vc ply else VALUE_DRAW vc)"
  from tb_step_maxValue [OF step]
  have m: "nv_maxValue vars = VALUE_INFINITE vc
       \<or> (tb_reports_loss UseRule50 probe \<and> nodeType \<noteq> NonPV \<and> conditions
          \<and> (variant = Classic False \<or> excludedMove = Move_none)
          \<and> nv_alpha vars = alpha \<and> alpha < nv_maxValue vars
          \<and> nv_maxValue vars =
               (case variant of Modern s c \<Rightarrow> - (VALUE_TB vc - ply)
                | Classic sm \<Rightarrow> VALUE_MATED_IN_MAX_PLY vc + ply + 1))"
    by simp
  have a: "nv_alpha vars \<le> VALUE_INFINITE vc"
    using step window rel pl
    by (auto simp: tb_step_def Let_def split: if_splits option.splits search_variant.splits)
  have le: "v \<le> nv_maxValue vars"
  proof (cases "nv_maxValue vars = VALUE_INFINITE vc")
    case True
    then show ?thesis using a rel pl by (auto simp: v_def mated_in_def)
  next
    case False
    with m have l: "tb_reports_loss UseRule50 probe" "nodeType \<noteq> NonPV" "conditions"
      and al: "nv_alpha vars = alpha" "alpha < nv_maxValue vars"
      and mv: "nv_maxValue vars =
               (case variant of Modern s c \<Rightarrow> - (VALUE_TB vc - ply)
                | Classic sm \<Rightarrow> VALUE_MATED_IN_MAX_PLY vc + ply + 1)"
      by simp_all
    show ?thesis
    proof (cases "excludedMove \<noteq> Move_none")
      case True
      then show ?thesis using al by (simp add: v_def)
    next
      case ex: False
      with sound l have ic: "inCheck" by auto
      show ?thesis
        using ex ic rel mv by (cases variant) (simp_all add: v_def mated_in_def)
    qed
  qed
  have "search_end vc variant nodeType 0 excludedMove inCheck ply vars =
      (if nodeType \<noteq> NonPV
            \<and> (case variant of Modern Shashin capablanca \<Rightarrow> \<not> Shashin \<or> \<not> capablanca
                | Classic SearchMate \<Rightarrow> True)
       then min v (nv_maxValue vars) else v)"
    by (simp add: search_end_def Let_def v_def)
  also have "\<dots> = v" using le by simp
  finally have 1: "search_end vc variant nodeType 0 excludedMove inCheck ply vars =
      (if excludedMove \<noteq> Move_none then nv_alpha vars
       else if inCheck then mated_in vc ply else VALUE_DRAW vc)"
    by (simp only: v_def)
  have 2: "nv_alpha vars = alpha" if "excludedMove \<noteq> Move_none" "variant \<noteq> Classic False"
    using step that by (auto simp: tb_step_def)
  from 1 2 show ?thesis by blast
qed


theorem search_no_move_value_witness:
  "search_end sf_consts (Modern False False) NonPV 0 Move_none True 3
      \<lparr> nv_alpha = 49, nv_bestValue = - 32001, nv_maxValue = 32001 \<rparr> = - 31997
   \<and> search_end sf_consts (Classic False) PV 0 Move_none False 3
      \<lparr> nv_alpha = 10, nv_bestValue = - 32001, nv_maxValue = 32001 \<rparr> = 0"
proof -
  have s1: "tb_step sf_consts (Modern False False) NonPV Move_none False None False 3 50
      \<lparr> nv_alpha = 49, nv_bestValue = - VALUE_INFINITE sf_consts,
        nv_maxValue = VALUE_INFINITE sf_consts \<rparr>
      = Goes_on \<lparr> nv_alpha = 49, nv_bestValue = - 32001, nv_maxValue = 32001 \<rparr>"
    by (simp add: tb_step_def sf_consts_def)
  have s2: "tb_step sf_consts (Classic False) PV Move_none True None False 3 50
      \<lparr> nv_alpha = 10, nv_bestValue = - VALUE_INFINITE sf_consts,
        nv_maxValue = VALUE_INFINITE sf_consts \<rparr>
      = Goes_on \<lparr> nv_alpha = 10, nv_bestValue = - 32001, nv_maxValue = 32001 \<rparr>"
    by (simp add: tb_step_def sf_consts_def)
  have l: "\<not> tb_reports_loss False None" by (simp add: tb_reports_loss_def)
  have c: "(49::int) \<le> VALUE_INFINITE sf_consts" "(10::int) \<le> VALUE_INFINITE sf_consts"
    "VALUE_DRAW sf_consts \<le> VALUE_INFINITE sf_consts"
    "VALUE_TB sf_consts \<le> VALUE_MATE sf_consts"
    "- VALUE_MATE sf_consts \<le> VALUE_MATED_IN_MAX_PLY sf_consts"
    "VALUE_MATE sf_consts \<le> VALUE_INFINITE sf_consts"
    "VALUE_MATE_IN_MAX_PLY sf_consts \<le> VALUE_MATE sf_consts"
    "MAX_PLY sf_consts \<le> VALUE_MATE sf_consts" "(0::int) \<le> 3" "3 < MAX_PLY sf_consts"
    by (simp_all add: sf_consts_def)
  from search_no_move_value [OF s1 c(1) c(3-10), of True] l
    search_no_move_value [OF s2 c(2) c(3-10), of False] l
  show ?thesis by (simp add: mated_in_def sf_consts_def Move_none_def)
qed

end
